theory Spec2Isabelle
  imports Complex_Main
begin

section \<open>Part I: the model\<close>

text \<open>
  A shallow embedding of \<^verbatim>\<open>pycdt/corrections/kumagai_correction.py\<close>.

  Python floats are read as real numbers: rounding, overflow, \<^verbatim>\<open>inf\<close> and the
  warnings of numpy are outside the model. The one non-number a result below depends on,
  the \<^verbatim>\<open>nan\<close> that \<^verbatim>\<open>np.mean\<close> returns for an empty list, is a value of its
  own (\<open>NaN\<close>). A raised exception is \<open>Inl\<close> of an \<open>error\<close>; a function that ends with a
  bare \<^verbatim>\<open>return\<close> returns Python's \<^verbatim>\<open>None\<close>, which is \<open>Inr None\<close>.

  A dielectric tensor is a 3x3 matrix, the form \<^verbatim>\<open>KumagaiCorrection.__init__\<close> gives
  a number it is handed and the only form \<^verbatim>\<open>np.linalg.inv\<close> in \<^verbatim>\<open>real_sum\<close>
  accepts.
\<close>

subsection \<open>Errors, vectors and matrices\<close>

datatype error =
  LinAlgError | TypeError | ValueError | IndexError | AttributeError | KeyError | UnboundLocalError

type_synonym vec = "real \<times> real \<times> real"

type_synonym mat = "vec \<times> vec \<times> vec"

fun dot :: "vec \<Rightarrow> vec \<Rightarrow> real" where
  "dot (a, b, c) (x, y, z) = a * x + b * y + c * z"

fun cross :: "vec \<Rightarrow> vec \<Rightarrow> vec" where
  "cross (a, b, c) (x, y, z) = (b * z - c * y, c * x - a * z, a * y - b * x)"

fun vadd :: "vec \<Rightarrow> vec \<Rightarrow> vec" where
  "vadd (a, b, c) (x, y, z) = (a + x, b + y, c + z)"

fun vsub :: "vec \<Rightarrow> vec \<Rightarrow> vec" where
  "vsub (a, b, c) (x, y, z) = (a - x, b - y, c - z)"

fun smul :: "real \<Rightarrow> vec \<Rightarrow> vec" where
  "smul s (x, y, z) = (s * x, s * y, s * z)"

text \<open>\<^verbatim>\<open>norm = np.linalg.norm\<close>, on a vector.\<close>

definition norm_v :: "vec \<Rightarrow> real" where
  "norm_v v = sqrt (dot v v)"

text \<open>\<^verbatim>\<open>np.dot(M, v)\<close> for a matrix given by its rows.\<close>

fun mat_vec :: "mat \<Rightarrow> vec \<Rightarrow> vec" where
  "mat_vec (r1, r2, r3) v = (dot r1 v, dot r2 v, dot r3 v)"

text \<open>\<^verbatim>\<open>np.linalg.det\<close> and \<^verbatim>\<open>np.linalg.inv\<close>; the latter raises on a singular matrix.\<close>

fun linalg_det :: "mat \<Rightarrow> real" where
  "linalg_det (r1, r2, r3) = dot r1 (cross r2 r3)"

fun adjugate :: "mat \<Rightarrow> mat" where
  "adjugate ((a, b, c), (d, e, f), (g, h, i)) =
     ((e * i - f * h, c * h - b * i, b * f - c * e),
      (f * g - d * i, a * i - c * g, c * d - a * f),
      (d * h - e * g, b * g - a * h, a * e - b * d))"

fun mat_scale :: "real \<Rightarrow> mat \<Rightarrow> mat" where
  "mat_scale s (r1, r2, r3) = (smul s r1, smul s r2, smul s r3)"

definition linalg_inv :: "mat \<Rightarrow> error + mat" where
  "linalg_inv m =
     (if linalg_det m = 0 then Inl LinAlgError
      else Inr (mat_scale (1 / linalg_det m) (adjugate m)))"

subsection \<open>Constants and library functions\<close>

definition hart_to_ev :: real where
  "hart_to_ev = 27.2114"

definition ang_to_bohr :: real where
  "ang_to_bohr = 1.8897"

text \<open>
  \<^verbatim>\<open>math.erfc\<close>, the complementary error function, by the Maclaurin series of the
  error function.
\<close>

definition erf_term :: "real \<Rightarrow> nat \<Rightarrow> real" where
  "erf_term x n = (- 1) ^ n * x ^ (2 * n + 1) / (fact n * real (2 * n + 1))"

definition erfc :: "real \<Rightarrow> real" where
  "erfc x = 1 - 2 / sqrt pi * (\<Sum>n. erf_term x n)"

subsection \<open>Structures (the attributes of the pymatgen objects that the module reads)\<close>

record Lattice =
  matrix :: mat
  abc :: vec
  volume :: real
  reciprocal_lattice :: mat
  get_fractional_coords :: "vec \<Rightarrow> vec"
  get_wigner_seitz_cell :: "vec list list"

record Site =
  coords :: vec
  frac_coords :: vec
  species_string :: string

record Structure =
  lattice :: Lattice
  sites :: "Site list"

text \<open>A three-dimensional numpy array: its shape and its entries.\<close>

record 'a ndarray =
  shape :: "nat \<times> nat \<times> nat"
  item :: "nat \<times> nat \<times> nat \<Rightarrow> 'a"

text \<open>An integer index into an axis of length \<open>n\<close>: negative indices count from the end.\<close>

definition np_index :: "nat \<Rightarrow> int \<Rightarrow> error + nat" where
  "np_index n i =
     (if 0 \<le> i \<and> i < int n then Inr (nat i)
      else if - int n \<le> i \<and> i < 0 then Inr (nat (i + int n))
      else Inl IndexError)"

fun getitem :: "'a ndarray \<Rightarrow> int \<times> int \<times> int \<Rightarrow> error + 'a" where
  "getitem arr (i, j, k) =
     (case shape arr of (nx, ny, nz) \<Rightarrow>
        (case np_index nx i of Inl e \<Rightarrow> Inl e | Inr i' \<Rightarrow>
        (case np_index ny j of Inl e \<Rightarrow> Inl e | Inr j' \<Rightarrow>
        (case np_index nz k of Inl e \<Rightarrow> Inl e | Inr k' \<Rightarrow>
           Inr (item arr (i', j', k'))))))"

subsection \<open>\<^verbatim>\<open>kumagai_init\<close>\<close>

text \<open>
  \<^verbatim>\<open>structure.lattice.get_cartesian_coords(1)\<close> is the lattice matrix itself. The
  function returns \<^verbatim>\<open>angset, bohrset, vol, determ, invdiel\<close>.
\<close>

definition kumagai_init ::
  "Structure \<Rightarrow> mat \<Rightarrow> error + (mat \<times> mat \<times> real \<times> real \<times> mat)" where
  "kumagai_init struct dieltens =
     (let angset = matrix (lattice struct);
          bohrset = mat_scale ang_to_bohr angset;
          vol = (case bohrset of (a1, a2, a3) \<Rightarrow> dot a1 (cross a2 a3));
          determ = linalg_det dieltens
      in case linalg_inv dieltens of
           Inl e \<Rightarrow> Inl e
         | Inr invdiel \<Rightarrow> Inr (angset, bohrset, vol, determ, invdiel))"

subsection \<open>\<^verbatim>\<open>real_sum\<close>\<close>

definition Nmaxlength :: int where
  "Nmaxlength = 40"

text \<open>The triples \<^verbatim>\<open>(i, j, k)\<close> of the three nested \<^verbatim>\<open>range(-N, N + 1)\<close> loops.\<close>

definition cube :: "int \<Rightarrow> (int \<times> int \<times> int) list" where
  "cube N = [(i, j, k). i \<leftarrow> [- N..N], j \<leftarrow> [- N..N], k \<leftarrow> [- N..N]]"

text \<open>One summand \<^verbatim>\<open>nmr / dmr\<close>.\<close>

definition summand :: "mat \<Rightarrow> real \<Rightarrow> real \<Rightarrow> vec \<Rightarrow> real" where
  "summand invdiel determ gamma r_vec =
     (let loc_res = dot r_vec (mat_vec invdiel r_vec);
          nmr = erfc (gamma * sqrt loc_res);
          dmr = sqrt (determ * loc_res)
      in nmr / dmr)"

definition lattice_point :: "vec \<Rightarrow> vec \<Rightarrow> vec \<Rightarrow> int \<times> int \<times> int \<Rightarrow> vec" where
  "lattice_point a1 a2 a3 ijk =
     (case ijk of (i, j, k) \<Rightarrow>
        vadd (vadd (smul (real_of_int i) a1) (smul (real_of_int j) a2)) (smul (real_of_int k) a3))"

text \<open>The value of \<^verbatim>\<open>r_sum\<close> at the end of one pass of the \<^verbatim>\<open>while\<close> body.\<close>

definition r_sum_at ::
  "vec \<Rightarrow> vec \<Rightarrow> vec \<Rightarrow> vec \<Rightarrow> mat \<Rightarrow> real \<Rightarrow> real \<Rightarrow> int \<Rightarrow> real" where
  "r_sum_at a1 a2 a3 r invdiel determ gamma N =
     (if norm_v r \<noteq> 0
      then sum_list (map (\<lambda>ijk. summand invdiel determ gamma (vsub (lattice_point a1 a2 a3 ijk) r))
                         (cube N))
      else sum_list (map (\<lambda>ijk. summand invdiel determ gamma (lattice_point a1 a2 a3 ijk))
                         (filter (\<lambda>ijk. ijk \<noteq> (0, 0, 0)) (cube N))))"

text \<open>
  The \<^verbatim>\<open>while N < Nmaxlength\<close> loop. Its state is \<^verbatim>\<open>N\<close>, \<^verbatim>\<open>r_sum\<close> and the
  list \<^verbatim>\<open>r_sums\<close>; \<open>shell N\<close> is the sum of the pass at \<^verbatim>\<open>N\<close>. The result is
  \<open>None\<close> for the bare \<^verbatim>\<open>return\<close> after the warning.
\<close>

function real_sum_loop ::
  "(int \<Rightarrow> real) \<Rightarrow> real \<Rightarrow> real \<Rightarrow> int \<Rightarrow> real \<Rightarrow> (int \<times> real) list \<Rightarrow> real option" where
  "real_sum_loop shell realpre tolerance N r_sum r_sums =
     (if N < Nmaxlength then
        (let r_sum' = shell N;
             r_sums' = r_sums @ [(N, realpre * r_sum')]
         in if N = Nmaxlength - 1 then None
            else if length r_sums' > 3 \<and>
                    \<bar>\<bar>snd (last r_sums')\<bar> - \<bar>snd (r_sums' ! (length r_sums' - 2))\<bar>\<bar> < tolerance
            then Some (snd (last r_sums'))
            else real_sum_loop shell realpre tolerance (N + 1) r_sum' r_sums')
      else Some r_sum)"
  by pat_completeness auto
termination
  by (relation "measure (\<lambda>(shell, realpre, tolerance, N, r_sum, r_sums). nat (Nmaxlength - N))") auto

declare real_sum_loop.simps [simp del]

definition real_sum ::
  "vec \<Rightarrow> vec \<Rightarrow> vec \<Rightarrow> vec \<Rightarrow> real \<Rightarrow> mat \<Rightarrow> real \<Rightarrow> real \<Rightarrow> error + real option" where
  "real_sum a1 a2 a3 r q dieltens gamma tolerance =
     (case linalg_inv dieltens of
        Inl e \<Rightarrow> Inl e
      | Inr invdiel \<Rightarrow>
          (let determ = linalg_det dieltens;
               realpre = q / sqrt determ;
               tolerance' = tolerance / hart_to_ev
           in Inr (real_sum_loop (r_sum_at a1 a2 a3 r invdiel determ gamma)
                     realpre tolerance' 2 0 [])))"

subsection \<open>Notions used to state the properties of \<^verbatim>\<open>real_sum\<close>\<close>

text \<open>
  \<open>cube_sum \<dots> N\<close> is the entry \<^verbatim>\<open>realpre * r_sum\<close> that the pass at \<^verbatim>\<open>N\<close>
  appends to \<^verbatim>\<open>r_sums\<close>, and \<open>accepted_at \<dots> N\<close> the test
  \<^verbatim>\<open>abs(abs(r_sums[-1][1]) - abs(r_sums[-2][1])) < tolerance\<close> of that pass, with the
  tolerance already divided by \<^verbatim>\<open>hart_to_ev\<close>.
\<close>

definition cube_sum ::
  "vec \<Rightarrow> vec \<Rightarrow> vec \<Rightarrow> vec \<Rightarrow> real \<Rightarrow> mat \<Rightarrow> real \<Rightarrow> int \<Rightarrow> real" where
  "cube_sum a1 a2 a3 r q dieltens gamma N =
     q / sqrt (linalg_det dieltens) *
     r_sum_at a1 a2 a3 r (mat_scale (1 / linalg_det dieltens) (adjugate dieltens))
       (linalg_det dieltens) gamma N"

definition accepted_at ::
  "vec \<Rightarrow> vec \<Rightarrow> vec \<Rightarrow> vec \<Rightarrow> real \<Rightarrow> mat \<Rightarrow> real \<Rightarrow> real \<Rightarrow> int \<Rightarrow> bool" where
  "accepted_at a1 a2 a3 r q dieltens gamma tolerance N =
     (\<bar>\<bar>cube_sum a1 a2 a3 r q dieltens gamma N\<bar> - \<bar>cube_sum a1 a2 a3 r q dieltens gamma (N - 1)\<bar>\<bar>
        < tolerance / hart_to_ev)"

definition converged_at :: "(int \<Rightarrow> real) \<Rightarrow> real \<Rightarrow> real \<Rightarrow> int \<Rightarrow> bool" where
  "converged_at shell realpre tolerance N =
     (\<bar>\<bar>realpre * shell N\<bar> - \<bar>realpre * shell (N - 1)\<bar>\<bar> < tolerance)"

definition partial_sums :: "(int \<Rightarrow> real) \<Rightarrow> real \<Rightarrow> int \<Rightarrow> (int \<times> real) list" where
  "partial_sums shell realpre N = map (\<lambda>M. (M, realpre * shell M)) [2..N - 1]"

subsection \<open>\<^verbatim>\<open>anisotropic_pc_energy\<close>\<close>

text \<open>
  \<^verbatim>\<open>r_part\<close> is \<^verbatim>\<open>None\<close> when the real-space sum did not converge; the sum
  \<^verbatim>\<open>r_part + g_part\<close> then raises a \<^verbatim>\<open>TypeError\<close>.
\<close>

definition anisotropic_pc_energy ::
  "Structure \<Rightarrow> real ndarray \<Rightarrow> mat \<Rightarrow> real \<Rightarrow> real \<Rightarrow> real \<Rightarrow> error + real" where
  "anisotropic_pc_energy struct g_sum dieltens q gamma tolerance =
     (case kumagai_init struct dieltens of
        Inl e \<Rightarrow> Inl e
      | Inr (angset, (a1, a2, a3), vol, determ, invdiel) \<Rightarrow>
     (case getitem g_sum (0, 0, 0) of
        Inl e \<Rightarrow> Inl e
      | Inr g0 \<Rightarrow>
     (let g_part = q * g0 in
      case real_sum a1 a2 a3 (0, 0, 0) q dieltens gamma tolerance of
        Inl e \<Rightarrow> Inl e
      | Inr r_part_opt \<Rightarrow>
          (let selfint = q * pi / (vol * gamma\<^sup>2);
               surfterm = 2 * gamma * q / sqrt (pi * determ)
           in case r_part_opt of
                None \<Rightarrow> Inl TypeError
              | Some r_part \<Rightarrow>
                  Inr (- q * 0.5 * hart_to_ev * (r_part + g_part - selfint - surfterm))))))"

definition pc_formula :: "real \<Rightarrow> real \<Rightarrow> real \<Rightarrow> real \<Rightarrow> real \<Rightarrow> real \<Rightarrow> real" where
  "pc_formula q real_space g0 vol determ gamma =
     - q * (1 / 2) *
       (real_space + q * g0 - q * pi / (vol * gamma\<^sup>2) - 2 * gamma * q / sqrt (pi * determ)) *
       27.2114"

subsection \<open>\<^verbatim>\<open>getgridind\<close>\<close>

text \<open>
  The two \<^verbatim>\<open>while\<close> loops that bring a fractional coordinate into \<open>[0, 1)\<close>.
\<close>

function wrap_up :: "real \<Rightarrow> real" where
  "wrap_up r = (if r < 0 then wrap_up (r + 1) else r)"
  by pat_completeness auto
termination
proof (relation "measure (\<lambda>r. nat \<lceil>- r\<rceil>)")
  show "wf (measure (\<lambda>r :: real. nat \<lceil>- r\<rceil>))" by simp
next
  fix r :: real
  assume "r < 0"
  then have "\<lceil>- (r + 1)\<rceil> < \<lceil>- r\<rceil>" and "0 < \<lceil>- r\<rceil>" by linarith+
  then show "(r + 1, r) \<in> measure (\<lambda>r. nat \<lceil>- r\<rceil>)" by simp
qed

function wrap_down :: "real \<Rightarrow> real" where
  "wrap_down r = (if 1 \<le> r then wrap_down (r - 1) else r)"
  by pat_completeness auto
termination
proof (relation "measure (\<lambda>r. nat \<lfloor>r\<rfloor>)")
  show "wf (measure (\<lambda>r :: real. nat \<lfloor>r\<rfloor>))" by simp
next
  fix r :: real
  assume "1 \<le> r"
  then have "\<lfloor>r - 1\<rfloor> < \<lfloor>r\<rfloor>" and "0 < \<lfloor>r\<rfloor>" by linarith+
  then show "(r - 1, r) \<in> measure (\<lambda>r. nat \<lfloor>r\<rfloor>)" by simp
qed

declare wrap_up.simps [simp del] wrap_down.simps [simp del]

definition wrap_unit :: "real \<Rightarrow> real" where
  "wrap_unit r = (if r < 0 then wrap_up r else if 1 \<le> r then wrap_down r else r)"

text \<open>\<^verbatim>\<open>np.argmin\<close>: the first index of a least entry.\<close>

fun argmin :: "real list \<Rightarrow> nat" where
  "argmin [] = 0"
| "argmin [x] = 0"
| "argmin (x # y # ys) = (let m = argmin (y # ys) in if x \<le> (y # ys) ! m then 0 else Suc m)"

text \<open>
  One pass of the loop over the three axes, for \<^verbatim>\<open>gridavg = 0.0\<close> (the value with
  which \<^verbatim>\<open>get_g_sum_at_r\<close> calls the function): the index along an axis of length
  \<^verbatim>\<open>abc[i]\<close> with \<^verbatim>\<open>num_pts\<close> grid points. \<^verbatim>\<open>x[1]\<close> raises on a grid of
  fewer than two points.
\<close>

definition axis_index :: "real \<Rightarrow> nat \<Rightarrow> real \<Rightarrow> error + nat" where
  "axis_index abc_i num_pts r_i =
     (let r' = wrap_unit r_i * abc_i;
          x = map (\<lambda>now_num. real now_num / real num_pts * abc_i) [0..<num_pts]
      in if length x < 2 then Inl IndexError
         else
           (let dx = x ! 1 - x ! 0;
                x_rprojection_delta_abs = map (\<lambda>xn. \<bar>xn - r'\<bar>) x;
                ind = argmin x_rprojection_delta_abs
            in if x_rprojection_delta_abs ! ind > dx * 1.1 then Inl ValueError
               else Inr ind))"

definition getgridind ::
  "Structure \<Rightarrow> nat \<times> nat \<times> nat \<Rightarrow> vec \<Rightarrow> error + (nat \<times> nat \<times> nat)" where
  "getgridind struct dims r =
     (case abc (lattice struct) of (la, lb, lc) \<Rightarrow>
      case dims of (nx, ny, nz) \<Rightarrow>
      case r of (r0, r1, r2) \<Rightarrow>
        (case axis_index la nx r0 of Inl e \<Rightarrow> Inl e | Inr i \<Rightarrow>
        (case axis_index lb ny r1 of Inl e \<Rightarrow> Inl e | Inr j \<Rightarrow>
        (case axis_index lc nz r2 of Inl e \<Rightarrow> Inl e | Inr k \<Rightarrow>
           Inr (i, j, k)))))"

subsection \<open>\<^verbatim>\<open>get_g_sum_at_r\<close> and \<^verbatim>\<open>anisotropic_madelung_potential\<close>\<close>

definition get_g_sum_at_r ::
  "real ndarray \<Rightarrow> Structure \<Rightarrow> nat \<times> nat \<times> nat \<Rightarrow> vec \<Rightarrow> error + real" where
  "get_g_sum_at_r g_sum struct dims r =
     (let fraccoord = get_fractional_coords (lattice struct) r
      in case getgridind struct dims fraccoord of
           Inl e \<Rightarrow> Inl e
         | Inr (i, j, k) \<Rightarrow> getitem g_sum (int i, int j, int k))"

definition anisotropic_madelung_potential ::
  "Structure \<Rightarrow> nat \<times> nat \<times> nat \<Rightarrow> real ndarray \<Rightarrow> vec \<Rightarrow> mat \<Rightarrow> real \<Rightarrow> real \<Rightarrow> real
     \<Rightarrow> error + real" where
  "anisotropic_madelung_potential struct dims g_sum r dieltens q gamma tolerance =
     (case kumagai_init struct dieltens of
        Inl e \<Rightarrow> Inl e
      | Inr (angset, (a1, a2, a3), vol, determ, invdiel) \<Rightarrow>
     (case get_g_sum_at_r g_sum struct dims r of
        Inl e \<Rightarrow> Inl e
      | Inr g \<Rightarrow>
     (let recippartreal = q * g in
      case real_sum a1 a2 a3 r q dieltens gamma tolerance of
        Inl e \<Rightarrow> Inl e
      | Inr directpart_opt \<Rightarrow>
          (let selfint = q * pi / (vol * gamma\<^sup>2)
           in case directpart_opt of
                None \<Rightarrow> Inl TypeError
              | Some directpart \<Rightarrow>
                  Inr (hart_to_ev * (directpart + recippartreal - selfint))))))"

text \<open>
  \<open>nearest_index n f i\<close>: among the \<open>n\<close> grid points \<open>0, 1/n, \<dots>, (n - 1)/n\<close> of an
  axis, the point \<open>i/n\<close> is one nearest to the fractional coordinate \<open>f\<close> taken into
  \<open>[0, 1)\<close>.
\<close>

definition nearest_index :: "nat \<Rightarrow> real \<Rightarrow> nat \<Rightarrow> bool" where
  "nearest_index n f i \<longleftrightarrow>
     i < n \<and> (\<forall>m<n. \<bar>real i / real n - frac f\<bar> \<le> \<bar>real m / real n - frac f\<bar>)"

subsection \<open>\<^verbatim>\<open>disttrans\<close>\<close>

text \<open>
  The dictionary \<^verbatim>\<open>grid_sites\<close> (\<^verbatim>\<open>potinddict\<close> in \<^verbatim>\<open>potalign\<close>) is a list of
  keys and entries, in the order in which \<^verbatim>\<open>keys()\<close> yields them. An entry holds the
  six keys that \<^verbatim>\<open>disttrans\<close> sets and the three that \<^verbatim>\<open>potalign\<close> adds later
  (\<open>None\<close> while a key is absent).
\<close>

record site_entry =
  site_dist :: real
  site_cart :: vec
  cart_reldef :: vec
  siteobj :: "vec \<times> vec \<times> string"
  bulk_site_index :: nat
  def_site_index :: nat
  OutsideWS :: "bool option"
  Vpc :: "real option"
  Vqb :: "real option"

fun dict_set :: "('k \<times> 'v) list \<Rightarrow> 'k \<Rightarrow> 'v \<Rightarrow> ('k \<times> 'v) list" where
  "dict_set [] k v = [(k, v)]"
| "dict_set ((k', v') # d) k v = (if k' = k then (k, v) # d else (k', v') # dict_set d k v)"

text \<open>
  The local function \<^verbatim>\<open>returnclosestr\<close>: the 27 images of the defect, the list sorted by
  distance (a stable sort), its first element.
\<close>

definition returnclosestr :: "mat \<Rightarrow> vec \<Rightarrow> vec \<Rightarrow> real \<times> vec \<times> vec" where
  "returnclosestr abclats defcell_def_ccoord v =
     (let listvals =
            map (\<lambda>ijk. let transvec = (case abclats of (b0, b1, b2) \<Rightarrow> lattice_point b0 b1 b2 ijk);
                             rnew = vsub v (vadd defcell_def_ccoord transvec)
                         in (norm_v rnew, rnew, transvec))
                [(i, j, k). i \<leftarrow> [- 1, 0, 1], j \<leftarrow> [- 1, 0, 1], k \<leftarrow> [- 1, 0, 1]]
      in hd (sort_key fst listvals))"

text \<open>
  The loop over \<^verbatim>\<open>sitelist\<close>. \<^verbatim>\<open>closestsites\<close> belongs to
  \<^verbatim>\<open>pycdt.corrections.utils\<close>, as does \<^verbatim>\<open>find_defect_pos\<close>; both are parameters.
  \<^verbatim>\<open>closestsites\<close> returns, for the bulk and for the defect structure, a site, its
  distance and its index.
\<close>

type_synonym closest = "Site \<times> real \<times> nat"

fun disttrans_loop ::
  "(Structure \<Rightarrow> Structure \<Rightarrow> vec \<Rightarrow> error + (closest \<times> closest)) \<Rightarrow> Structure \<Rightarrow> Structure
     \<Rightarrow> vec \<Rightarrow> vec \<Rightarrow> Site list \<Rightarrow> (nat \<times> site_entry) list
     \<Rightarrow> error + (nat \<times> site_entry) list" where
  "disttrans_loop closestsites struct defstruct def_ccoord defcell_def_ccoord [] grid_sites =
     Inr grid_sites"
| "disttrans_loop closestsites struct defstruct def_ccoord defcell_def_ccoord (i # sitelist)
       grid_sites =
     (if coords i = def_ccoord
      then disttrans_loop closestsites struct defstruct def_ccoord defcell_def_ccoord sitelist
             grid_sites
      else
        (case closestsites struct defstruct (coords i) of
           Inl e \<Rightarrow> Inl e
         | Inr (blksite, defsite) \<Rightarrow>
             (let blkindex = snd (snd blksite);
                  defindex = snd (snd defsite);
                  dcart_coord = coords (fst defsite);
                  closeimage = returnclosestr (matrix (lattice defstruct)) defcell_def_ccoord
                                 dcart_coord;
                  cart_reldef' = fst (snd closeimage);
                  defdist = fst closeimage
              in disttrans_loop closestsites struct defstruct def_ccoord defcell_def_ccoord
                   sitelist
                   (dict_set grid_sites blkindex
                      \<lparr>site_dist = defdist, site_cart = dcart_coord, cart_reldef = cart_reldef',
                       siteobj = (coords i, frac_coords i, species_string i),
                       bulk_site_index = blkindex, def_site_index = defindex,
                       OutsideWS = None, Vpc = None, Vqb = None\<rparr>))))"

text \<open>
  \<^verbatim>\<open>disttrans\<close>. When \<^verbatim>\<open>find_defect_pos\<close> finds neither a bulk nor a defect
  position, the function logs an error and ends with a bare \<^verbatim>\<open>return\<close>.
\<close>

definition disttrans ::
  "(Structure \<Rightarrow> Structure \<Rightarrow> vec option \<times> vec option)
     \<Rightarrow> (Structure \<Rightarrow> Structure \<Rightarrow> vec \<Rightarrow> error + (closest \<times> closest))
     \<Rightarrow> Structure \<Rightarrow> Structure \<Rightarrow> nat \<times> nat \<times> nat
     \<Rightarrow> error + (nat \<times> site_entry) list option" where
  "disttrans find_defect_pos closestsites struct defstruct dims =
     (let sitelist = (if length (sites struct) \<ge> length (sites defstruct)
                      then sites struct else sites defstruct)
      in case find_defect_pos struct defstruct of
           (None, None) \<Rightarrow> Inr None
         | (None, Some defsite) \<Rightarrow>
             map_sum id Some
               (disttrans_loop closestsites struct defstruct defsite defsite sitelist [])
         | (Some blksite, None) \<Rightarrow>
             map_sum id Some
               (disttrans_loop closestsites struct defstruct blksite blksite sitelist [])
         | (Some blksite, Some defsite) \<Rightarrow>
             map_sum id Some
               (disttrans_loop closestsites struct defstruct blksite defsite sitelist []))"

subsection \<open>\<^verbatim>\<open>wigner_seitz_radius\<close>\<close>

definition vmean :: "vec list \<Rightarrow> vec" where
  "vmean vs = smul (1 / real (length vs)) (fold vadd vs (0, 0, 0))"

text \<open>\<^verbatim>\<open>min\<close> of a list raises on the empty list.\<close>

definition py_min :: "real list \<Rightarrow> error + real" where
  "py_min xs = (case xs of [] \<Rightarrow> Inl ValueError | x # xs' \<Rightarrow> Inr (fold min xs' x))"

definition wigner_seitz_radius :: "Structure \<Rightarrow> error + real" where
  "wigner_seitz_radius struct =
     (let wz = get_wigner_seitz_cell (lattice struct);
          dist = map (\<lambda>facet. norm_v (vmean facet)) wz
      in py_min dist)"

subsection \<open>\<^verbatim>\<open>KumagaiCorrection\<close>\<close>

text \<open>
  The attributes of a \<^verbatim>\<open>KumagaiCorrection\<close> object that the methods read. The two lists
  are the \<^verbatim>\<open>'potential'\<close> entries of what \<^verbatim>\<open>read_ES_avg\<close> or
  \<^verbatim>\<open>read_ES_avg_fromlocpot\<close> returns for the bulk and for the defect cell.
\<close>

record KumagaiCorrection =
  self_dieltens :: mat
  self_q :: real
  self_gamma :: real
  self_g_sum :: "real ndarray"
  self_structure :: Structure
  self_defstructure :: Structure
  self_dims :: "nat \<times> nat \<times> nat"
  self_madetol :: real
  puredat_potential :: "real list"
  defdat_potential :: "real list"

text \<open>A float that may be \<^verbatim>\<open>nan\<close>; \<^verbatim>\<open>np.mean\<close> of an empty list is \<^verbatim>\<open>nan\<close>.\<close>

datatype pyfloat = Num real | NaN

definition np_mean :: "real list \<Rightarrow> pyfloat" where
  "np_mean xs = (if xs = [] then NaN else Num (sum_list xs / real (length xs)))"

fun fmul :: "real \<Rightarrow> pyfloat \<Rightarrow> pyfloat" where
  "fmul a (Num x) = Num (a * x)"
| "fmul a NaN = NaN"

fun fadd :: "real \<Rightarrow> pyfloat \<Rightarrow> pyfloat" where
  "fadd a (Num x) = Num (a + x)"
| "fadd a NaN = NaN"

definition list_get :: "'a list \<Rightarrow> nat \<Rightarrow> error + 'a" where
  "list_get xs i = (if i < length xs then Inr (xs ! i) else Inl IndexError)"

definition pc :: "KumagaiCorrection \<Rightarrow> error + real" where
  "pc self =
     anisotropic_pc_energy (self_structure self) (self_g_sum self) (self_dieltens self)
       (self_q self) (self_gamma self) (self_madetol self)"

text \<open>
  \<^verbatim>\<open>potalign\<close> for \<^verbatim>\<open>title=None\<close>, its default and the value with which
  \<^verbatim>\<open>correction\<close> is called by default: nothing is plotted or written. The first loop
  over the keys sets \<^verbatim>\<open>'OutsideWS'\<close>.
\<close>

definition mark_outside :: "real \<Rightarrow> (nat \<times> site_entry) list \<Rightarrow> (nat \<times> site_entry) list" where
  "mark_outside wsrad potinddict =
     map (\<lambda>(i, e). (i, e\<lparr>OutsideWS := Some (site_dist e > wsrad)\<rparr>)) potinddict"

text \<open>The second loop computes \<^verbatim>\<open>'Vpc'\<close> and \<^verbatim>\<open>'Vqb'\<close> for the sites outside.\<close>

fun potential_loop ::
  "KumagaiCorrection \<Rightarrow> (nat \<times> site_entry) list \<Rightarrow> error + (nat \<times> site_entry) list" where
  "potential_loop self [] = Inr []"
| "potential_loop self ((i, e) # rest) =
     (case OutsideWS e of
        None \<Rightarrow> Inl KeyError
      | Some False \<Rightarrow> map_sum id (\<lambda>rest'. (i, e) # rest') (potential_loop self rest)
      | Some True \<Rightarrow>
          (let j = def_site_index e; k = bulk_site_index e in
           case list_get (defdat_potential self) j of Inl err \<Rightarrow> Inl err | Inr vd \<Rightarrow>
           case list_get (puredat_potential self) k of Inl err \<Rightarrow> Inl err | Inr vb \<Rightarrow>
           (let v_qb = vd - vb in
            case anisotropic_madelung_potential (self_structure self) (self_dims self)
                   (self_g_sum self) (cart_reldef e) (self_dieltens self) (self_q self)
                   (self_gamma self) (self_madetol self) of
              Inl err \<Rightarrow> Inl err
            | Inr v_pc \<Rightarrow>
                (let v_qb' = v_qb * (- 1) in
                 map_sum id (\<lambda>rest'. (i, e\<lparr>Vpc := Some v_pc, Vqb := Some v_qb'\<rparr>) # rest')
                   (potential_loop self rest)))))"

text \<open>The third loop collects \<^verbatim>\<open>forcorrection\<close>.\<close>

fun forcorrection_loop :: "(nat \<times> site_entry) list \<Rightarrow> real list \<Rightarrow> error + real list" where
  "forcorrection_loop [] forcorrection = Inr forcorrection"
| "forcorrection_loop ((i, e) # rest) forcorrection =
     (case OutsideWS e of
        None \<Rightarrow> Inl KeyError
      | Some False \<Rightarrow> forcorrection_loop rest forcorrection
      | Some True \<Rightarrow>
          (case (Vqb e, Vpc e) of
             (Some vqb, Some vpc) \<Rightarrow> forcorrection_loop rest (forcorrection @ [vqb - vpc])
           | _ \<Rightarrow> Inl KeyError))"

definition potalign ::
  "(Structure \<Rightarrow> Structure \<Rightarrow> vec option \<times> vec option)
     \<Rightarrow> (Structure \<Rightarrow> Structure \<Rightarrow> vec \<Rightarrow> error + (closest \<times> closest))
     \<Rightarrow> KumagaiCorrection \<Rightarrow> error + pyfloat" where
  "potalign find_defect_pos closestsites self =
     (case kumagai_init (self_structure self) (self_dieltens self) of
        Inl e \<Rightarrow> Inl e
      | Inr init \<Rightarrow>
     (case disttrans find_defect_pos closestsites (self_structure self) (self_defstructure self)
             (self_dims self) of
        Inl e \<Rightarrow> Inl e
      | Inr potinddict_opt \<Rightarrow>
     (case wigner_seitz_radius (self_structure self) of
        Inl e \<Rightarrow> Inl e
      | Inr wsrad \<Rightarrow>
     (case potinddict_opt of
        None \<Rightarrow> Inl AttributeError
      | Some potinddict \<Rightarrow>
     (case potential_loop self (mark_outside wsrad potinddict) of
        Inl e \<Rightarrow> Inl e
      | Inr potinddict' \<Rightarrow>
     (case forcorrection_loop potinddict' [] of
        Inl e \<Rightarrow> Inl e
      | Inr forcorrection \<Rightarrow>
          Inr (fmul (- self_q self) (np_mean forcorrection))))))))"

subsection \<open>\<^verbatim>\<open>KumagaiCorrection.correction\<close>\<close>

text \<open>
  \<^verbatim>\<open>round(x, 5)\<close> of Python 2: to the nearest multiple of \<open>10\<^sup>-\<^sup>5\<close>, a tie away from
  zero.
\<close>

fun round5 :: "pyfloat \<Rightarrow> pyfloat" where
  "round5 (Num x) = Num (sgn x * real_of_int \<lfloor>\<bar>x\<bar> * 10 ^ 5 + 1 / 2\<rfloor> / 10 ^ 5)"
| "round5 NaN = NaN"

text \<open>What \<^verbatim>\<open>correction\<close> returns: a float, or the list of three floats.\<close>

datatype correction_result = Scalar pyfloat | Split pyfloat pyfloat pyfloat

definition correction ::
  "(Structure \<Rightarrow> Structure \<Rightarrow> vec option \<times> vec option)
     \<Rightarrow> (Structure \<Rightarrow> Structure \<Rightarrow> vec \<Rightarrow> error + (closest \<times> closest))
     \<Rightarrow> KumagaiCorrection \<Rightarrow> string \<Rightarrow> error + correction_result" where
  "correction find_defect_pos closestsites self partflag =
     (if self_q self = 0 then
        (if partflag = ''AllSplit'' then Inr (Split (Num 0) (Num 0) (Num 0))
         else Inr (Scalar (Num 0)))
      else
        (case (if partflag \<noteq> ''potalign'' then map_sum id Some (pc self) else Inr None) of
           Inl e \<Rightarrow> Inl e
         | Inr energy_pc \<Rightarrow>
        (case (if partflag \<noteq> ''pc''
               then map_sum id Some (potalign find_defect_pos closestsites self)
               else Inr None) of
           Inl e \<Rightarrow> Inl e
         | Inr potalign' \<Rightarrow>
             (if partflag = ''pc'' then
                (case energy_pc of
                   None \<Rightarrow> Inl UnboundLocalError
                 | Some e \<Rightarrow> Inr (Scalar (round5 (Num e))))
              else if partflag = ''potalign'' then
                (case potalign' of
                   None \<Rightarrow> Inl UnboundLocalError
                 | Some p \<Rightarrow> Inr (Scalar (round5 p)))
              else
                (case (energy_pc, potalign') of
                   (Some e, Some p) \<Rightarrow>
                     (if partflag = ''All'' then Inr (Scalar (round5 (fadd e p)))
                      else Inr (Split (round5 (Num e)) (round5 p) (round5 (fadd e p))))
                 | _ \<Rightarrow> Inl UnboundLocalError)))))"

subsection \<open>\<^verbatim>\<open>KumagaiBulkInit.find_optimal_gamma\<close>\<close>








subsection \<open>\<^verbatim>\<open>KumagaiBulkInit.reciprocal_sum\<close>\<close>

text \<open>
  \<^verbatim>\<open>ind1 = np.arange(nx)\<close> followed by \<^verbatim>\<open>for i in range(nx/2, nx): ind1[i] = i - nx\<close>,
  with the integer division of Python 2.
\<close>

definition ind_array :: "nat \<Rightarrow> int list" where
  "ind_array n = fold (\<lambda>i ind. ind[i := int i - int n]) [n div 2..<n] (map int [0..<n])"

text \<open>An assignment \<^verbatim>\<open>arr[i, j, k] = v\<close>.\<close>

fun setitem :: "'a ndarray \<Rightarrow> int \<times> int \<times> int \<Rightarrow> 'a \<Rightarrow> error + 'a ndarray" where
  "setitem arr (i, j, k) v =
     (case shape arr of (nx, ny, nz) \<Rightarrow>
        (case np_index nx i of Inl e \<Rightarrow> Inl e | Inr i' \<Rightarrow>
        (case np_index ny j of Inl e \<Rightarrow> Inl e | Inr j' \<Rightarrow>
        (case np_index nz k of Inl e \<Rightarrow> Inl e | Inr k' \<Rightarrow>
           Inr (arr\<lparr>item := (item arr)((i', j', k') := v)\<rparr>)))))"

text \<open>The entry that the loop writes for the indices \<^verbatim>\<open>i, j, k\<close>.\<close>

definition g_entry :: "vec \<Rightarrow> vec \<Rightarrow> vec \<Rightarrow> mat \<Rightarrow> real \<Rightarrow> int \<times> int \<times> int \<Rightarrow> real" where
  "g_entry b1 b2 b3 epsilon gamm2 ijk =
     (let g = lattice_point b1 b2 b3 ijk;
          g_eps_g = dot g (mat_vec epsilon g)
      in exp (- g_eps_g / gamm2) / g_eps_g)"

text \<open>The three nested loops over \<^verbatim>\<open>ind1\<close>, \<^verbatim>\<open>ind2\<close> and \<^verbatim>\<open>ind3\<close>.\<close>

fun g_array_loop ::
  "vec \<Rightarrow> vec \<Rightarrow> vec \<Rightarrow> mat \<Rightarrow> real \<Rightarrow> (int \<times> int \<times> int) list \<Rightarrow> complex ndarray
     \<Rightarrow> error + complex ndarray" where
  "g_array_loop b1 b2 b3 epsilon gamm2 [] g_array = Inr g_array"
| "g_array_loop b1 b2 b3 epsilon gamm2 (ijk # rest) g_array =
     (if ijk = (0, 0, 0) then g_array_loop b1 b2 b3 epsilon gamm2 rest g_array
      else
        (case setitem g_array ijk (complex_of_real (g_entry b1 b2 b3 epsilon gamm2 ijk)) of
           Inl e \<Rightarrow> Inl e
         | Inr g_array' \<Rightarrow> g_array_loop b1 b2 b3 epsilon gamm2 rest g_array'))"

text \<open>
  \<^verbatim>\<open>np.fft.fftn\<close>, the forward discrete Fourier transform over the three axes; numpy
  raises on an axis of length zero.
\<close>

definition fftn :: "complex ndarray \<Rightarrow> error + complex ndarray" where
  "fftn a =
     (case shape a of (n1, n2, n3) \<Rightarrow>
        if n1 = 0 \<or> n2 = 0 \<or> n3 = 0 then Inl ValueError
        else Inr \<lparr>shape = (n1, n2, n3),
                  item = (\<lambda>(k1, k2, k3).
                    \<Sum>m1<n1. \<Sum>m2<n2. \<Sum>m3<n3.
                      item a (m1, m2, m3) *
                      cis (- 2 * pi * (real (k1 * m1) / real n1 + real (k2 * m2) / real n2
                                        + real (k3 * m3) / real n3)))\<rparr>)"

text \<open>The array \<^verbatim>\<open>r_array\<close> of \<^verbatim>\<open>reciprocal_sum\<close> after \<^verbatim>\<open>r_array *= over_vol\<close>.\<close>

definition reciprocal_r_array ::
  "Structure \<Rightarrow> nat \<times> nat \<times> nat \<Rightarrow> mat \<Rightarrow> real \<Rightarrow> error + complex ndarray" where
  "reciprocal_r_array struct dims epsilon gamma =
     (let over_atob = 1 / ang_to_bohr;
          atob3 = ang_to_bohr ^ 3;
          latt = lattice struct;
          vol = volume latt * atob3
      in case mat_scale over_atob (reciprocal_lattice latt) of (b1, b2, b3) \<Rightarrow>
         case dims of (nx, ny, nz) \<Rightarrow>
        (let ind1 = ind_array nx; ind2 = ind_array ny; ind3 = ind_array nz;
             g_array = \<lparr>shape = dims, item = (\<lambda>_. 0)\<rparr>;
             gamm2 = 4 * gamma\<^sup>2
         in case g_array_loop b1 b2 b3 epsilon gamm2
                   [(i, j, k). i \<leftarrow> ind1, j \<leftarrow> ind2, k \<leftarrow> ind3] g_array of
              Inl e \<Rightarrow> Inl e
            | Inr g_array' \<Rightarrow>
                (case fftn g_array' of
                   Inl e \<Rightarrow> Inl e
                 | Inr r_array \<Rightarrow>
                     (let over_vol = 4 * pi / vol
                      in Inr \<lparr>shape = shape r_array,
                              item = (\<lambda>p. item r_array p * complex_of_real over_vol)\<rparr>))))"


text \<open>
  Notions used to state the properties of \<^verbatim>\<open>reciprocal_sum\<close>. \<open>signed_index n m\<close> is the
  multiple of a reciprocal lattice vector that stands at position \<open>m\<close> of an axis of
  length \<open>n\<close>; \<open>above_half n m\<close> says that the position \<open>m\<close> is at or above half the grid
  dimension.
\<close>

definition signed_index :: "nat \<Rightarrow> nat \<Rightarrow> int" where
  "signed_index n m = (if m < n div 2 then int m else int m - int n)"

definition above_half :: "nat \<Rightarrow> nat \<Rightarrow> bool" where
  "above_half n m \<longleftrightarrow> real n / 2 \<le> real m"

fun signed3 :: "nat \<times> nat \<times> nat \<Rightarrow> nat \<times> nat \<times> nat \<Rightarrow> int \<times> int \<times> int" where
  "signed3 (nx, ny, nz) (m1, m2, m3) = (signed_index nx m1, signed_index ny m2, signed_index nz m3)"

text \<open>
  \<open>g_array_at\<close> is the entry of \<^verbatim>\<open>g_array\<close> at the position \<open>m\<close> when the signed multiples
  of the position are those of \<open>signed3\<close>: zero where all three multiples are zero.
\<close>

definition g_array_at ::
  "vec \<Rightarrow> vec \<Rightarrow> vec \<Rightarrow> mat \<Rightarrow> real \<Rightarrow> nat \<times> nat \<times> nat \<Rightarrow> nat \<times> nat \<times> nat \<Rightarrow> complex" where
  "g_array_at b1 b2 b3 epsilon gamm2 dims m =
     (if signed3 dims m = (0, 0, 0) then 0
      else complex_of_real (g_entry b1 b2 b3 epsilon gamm2 (signed3 dims m)))"

text \<open>
  The signed multiple that the rule \<^emph>\<open>indices above half the grid dimension wrap to negative\<close>
  gives to the position \<open>m\<close> of an axis of length \<open>n\<close>.
\<close>

definition claim_index :: "nat \<Rightarrow> nat \<Rightarrow> int" where
  "claim_index n m = (if above_half n m then int m - int n else int m)"
subsection \<open>Inputs for the closed instances\<close>

text \<open>
  A cubic cell of edge 1 Angstrom, the unit dielectric tensor and an array of zeros.
\<close>

definition eye3 :: mat where
  "eye3 = ((1, 0, 0), (0, 1, 0), (0, 0, 1))"

definition cubic_lattice :: Lattice where
  "cubic_lattice =
     \<lparr>matrix = ((1, 0, 0), (0, 1, 0), (0, 0, 1)),
      abc = (1, 1, 1),
      volume = 1,
      reciprocal_lattice = ((2 * pi, 0, 0), (0, 2 * pi, 0), (0, 0, 2 * pi)),
      get_fractional_coords = (\<lambda>v. v),
      get_wigner_seitz_cell =
        [[(1 / 2, - 1 / 2, - 1 / 2), (1 / 2, 1 / 2, - 1 / 2), (1 / 2, 1 / 2, 1 / 2), (1 / 2, - 1 / 2, 1 / 2)],
         [(- 1 / 2, - 1 / 2, - 1 / 2), (- 1 / 2, 1 / 2, - 1 / 2), (- 1 / 2, 1 / 2, 1 / 2), (- 1 / 2, - 1 / 2, 1 / 2)],
         [(- 1 / 2, 1 / 2, - 1 / 2), (1 / 2, 1 / 2, - 1 / 2), (1 / 2, 1 / 2, 1 / 2), (- 1 / 2, 1 / 2, 1 / 2)],
         [(- 1 / 2, - 1 / 2, - 1 / 2), (1 / 2, - 1 / 2, - 1 / 2), (1 / 2, - 1 / 2, 1 / 2), (- 1 / 2, - 1 / 2, 1 / 2)],
         [(- 1 / 2, - 1 / 2, 1 / 2), (1 / 2, - 1 / 2, 1 / 2), (1 / 2, 1 / 2, 1 / 2), (- 1 / 2, 1 / 2, 1 / 2)],
         [(- 1 / 2, - 1 / 2, - 1 / 2), (1 / 2, - 1 / 2, - 1 / 2), (1 / 2, 1 / 2, - 1 / 2), (- 1 / 2, 1 / 2, - 1 / 2)]]\<rparr>"

definition cubic_cell :: Structure where
  "cubic_cell = \<lparr>lattice = cubic_lattice, sites = []\<rparr>"

text \<open>
  The same cell with its first two lattice vectors exchanged: a left-handed lattice, whose
  \<^verbatim>\<open>volume\<close> attribute (pymatgen takes the absolute value of the determinant) is 1.
\<close>

definition lh_lattice :: Lattice where
  "lh_lattice =
     \<lparr>matrix = ((0, 1, 0), (1, 0, 0), (0, 0, 1)),
      abc = (1, 1, 1),
      volume = 1,
      reciprocal_lattice = ((0, 2 * pi, 0), (2 * pi, 0, 0), (0, 0, 2 * pi)),
      get_fractional_coords = (\<lambda>(x, y, z). (y, x, z)),
      get_wigner_seitz_cell = get_wigner_seitz_cell cubic_lattice\<rparr>"

definition lh_cell :: Structure where
  "lh_cell = \<lparr>lattice = lh_lattice, sites = []\<rparr>"

definition zero_mat :: mat where
  "zero_mat = ((0, 0, 0), (0, 0, 0), (0, 0, 0))"

definition zeros :: "nat \<times> nat \<times> nat \<Rightarrow> real ndarray" where
  "zeros sh = \<lparr>shape = sh, item = (\<lambda>_. 0)\<rparr>"

text \<open>
  The same cell with two sites, and with the first of them removed (a vacancy at the
  origin). On this pair \<^verbatim>\<open>find_defect_pos\<close> gives the position of the vacancy and no
  position in the defect cell, and \<^verbatim>\<open>closestsites\<close> at the second site gives that
  site in both cells, at distance zero, with index 1 in the bulk and 0 in the defect cell.
  On a pair of equal structures \<^verbatim>\<open>find_defect_pos\<close> finds no defect.
\<close>

definition site_A :: Site where
  "site_A = \<lparr>coords = (0, 0, 0), frac_coords = (0, 0, 0), species_string = ''Na''\<rparr>"

definition site_B :: Site where
  "site_B = \<lparr>coords = (1 / 2, 0, 0), frac_coords = (1 / 2, 0, 0), species_string = ''Cl''\<rparr>"

definition bulk_cell :: Structure where
  "bulk_cell = \<lparr>lattice = cubic_lattice, sites = [site_A, site_B]\<rparr>"

definition vacancy_cell :: Structure where
  "vacancy_cell = \<lparr>lattice = cubic_lattice, sites = [site_B]\<rparr>"

definition vacancy_at_origin :: "Structure \<Rightarrow> Structure \<Rightarrow> vec option \<times> vec option" where
  "vacancy_at_origin struct defstruct = (Some (0, 0, 0), None)"

definition no_defect :: "Structure \<Rightarrow> Structure \<Rightarrow> vec option \<times> vec option" where
  "no_defect struct defstruct = (None, None)"

definition closest_is_B :: "Structure \<Rightarrow> Structure \<Rightarrow> vec \<Rightarrow> error + (closest \<times> closest)" where
  "closest_is_B struct defstruct pos = Inr ((site_B, 0, 1), (site_B, 0, 0))"

definition vacancy_run :: KumagaiCorrection where
  "vacancy_run =
     \<lparr>self_dieltens = eye3, self_q = 1, self_gamma = 1 / 100, self_g_sum = zeros (2, 2, 2),
      self_structure = bulk_cell, self_defstructure = vacancy_cell, self_dims = (2, 2, 2),
      self_madetol = 1 / 10000, puredat_potential = [0, 0], defdat_potential = [0]\<rparr>"


section \<open>Part II: properties\<close>

lemma linalg_inv_cases:
  "linalg_inv m = (if linalg_det m = 0 then Inl LinAlgError
                   else Inr (mat_scale (1 / linalg_det m) (adjugate m)))"
  by (simp add: linalg_inv_def)

subsection \<open>The loop of \<^verbatim>\<open>real_sum\<close>\<close>

lemma partial_sums_step:
  "2 \<le> N \<Longrightarrow> partial_sums shell realpre N @ [(N, realpre * shell N)] = partial_sums shell realpre (N + 1)"
  by (simp add: partial_sums_def upto_rec2)

lemma partial_sums_length: "2 \<le> N \<Longrightarrow> length (partial_sums shell realpre N) = nat (N - 2)"
  by (simp add: partial_sums_def)

lemma partial_sums_last:
  "2 \<le> N \<Longrightarrow> last (partial_sums shell realpre (N + 1)) = (N, realpre * shell N)"
  by (simp add: partial_sums_def upto_rec2)

lemma partial_sums_nth:
  "2 \<le> N \<Longrightarrow> i < nat (N - 2) \<Longrightarrow> partial_sums shell realpre N ! i = (2 + int i, realpre * shell (2 + int i))"
  by (simp add: partial_sums_def)

lemma real_sum_loop_unfold:
  assumes "N < 39"
  shows "real_sum_loop shell realpre tolerance N r_sum r_sums =
     (if length r_sums \<ge> 3 \<and>
         \<bar>\<bar>realpre * shell N\<bar> - \<bar>snd (last r_sums)\<bar>\<bar> < tolerance
      then Some (realpre * shell N)
      else real_sum_loop shell realpre tolerance (N + 1) (shell N) (r_sums @ [(N, realpre * shell N)]))"
proof (cases "3 \<le> length r_sums")
  case True
  then have ne: "r_sums \<noteq> []" by auto
  have "(r_sums @ [(N, realpre * shell N)]) ! (length (r_sums @ [(N, realpre * shell N)]) - 2)
          = r_sums ! (length r_sums - 1)"
    using True by (auto simp add: nth_append)
  also have "\<dots> = last r_sums" using ne by (simp add: last_conv_nth)
  finally have nth: "(r_sums @ [(N, realpre * shell N)]) ! (length (r_sums @ [(N, realpre * shell N)]) - 2)
          = last r_sums" .
  have gt: "length (r_sums @ [(N, realpre * shell N)]) > 3" using True by simp
  show ?thesis
    using assms True
    by (subst real_sum_loop.simps) (simp only: Let_def nth gt, simp add: Nmaxlength_def)
next
  case False
  then have "\<not> length (r_sums @ [(N, realpre * shell N)]) > 3" by simp
  then show ?thesis
    using assms False
    by (subst real_sum_loop.simps) (simp only: Let_def, simp add: Nmaxlength_def)
qed

lemma real_sum_loop_cap:
  "real_sum_loop shell realpre tolerance 39 r_sum r_sums = None"
  by (subst real_sum_loop.simps) (simp add: Nmaxlength_def)

lemma real_sum_loop_find:
  "2 \<le> N \<Longrightarrow> N \<le> 39 \<Longrightarrow>
   real_sum_loop shell realpre tolerance N r_sum (partial_sums shell realpre N) =
     (case find (converged_at shell realpre tolerance) [max N 5..38] of
        None \<Rightarrow> None
      | Some M \<Rightarrow> Some (realpre * shell M))"
proof (induction "nat (39 - N)" arbitrary: N r_sum)
  case 0
  then have "N = 39" by simp
  then show ?case
    by (simp add: real_sum_loop_cap)
next
  case (Suc n)
  then have N: "2 \<le> N" "N < 39" by auto
  have len: "length (partial_sums shell realpre N) = nat (N - 2)"
    using N partial_sums_length [of "N" shell realpre] by simp
  have rec: "real_sum_loop shell realpre tolerance (N + 1) (shell N) (partial_sums shell realpre (N + 1)) =
     (case find (converged_at shell realpre tolerance) [max (N + 1) 5..38] of
        None \<Rightarrow> None | Some M \<Rightarrow> Some (realpre * shell M))"
    using N Suc.hyps(2) by (intro Suc.hyps(1)) auto
  have unf: "real_sum_loop shell realpre tolerance N r_sum (partial_sums shell realpre N) =
     (if length (partial_sums shell realpre N) \<ge> 3 \<and>
         \<bar>\<bar>realpre * shell N\<bar> - \<bar>snd (last (partial_sums shell realpre N))\<bar>\<bar> < tolerance
      then Some (realpre * shell N)
      else real_sum_loop shell realpre tolerance (N + 1) (shell N) (partial_sums shell realpre (N + 1)))"
    using N real_sum_loop_unfold [of N shell realpre tolerance r_sum "partial_sums shell realpre N"]
      partial_sums_step [of N shell realpre] by simp
  show ?case
  proof (cases "N < 5")
    case True
    then have "\<not> length (partial_sums shell realpre N) \<ge> 3" using len by simp
    moreover have "max (N + 1) 5 = max N 5" using True by simp
    ultimately show ?thesis using rec unf by simp
  next
    case ge5: False
    have lst: "last (partial_sums shell realpre N) = (N - 1, realpre * shell (N - 1))"
      using ge5 N partial_sums_last [of "N - 1" shell realpre] by simp
    have upto: "[max N 5..38] = N # [max (N + 1) 5..38]"
      using ge5 N by (simp add: upto_rec1 [of N 38] max_def)
    have l3: "length (partial_sums shell realpre N) \<ge> 3" using ge5 len by simp
    show ?thesis
      unfolding unf upto rec using l3 lst
      by (simp add: converged_at_def)
  qed
qed

lemma real_sum_find:
  "real_sum a1 a2 a3 r q dieltens gamma tolerance =
     (if linalg_det dieltens = 0 then Inl LinAlgError
      else Inr (map_option (cube_sum a1 a2 a3 r q dieltens gamma)
                  (find (accepted_at a1 a2 a3 r q dieltens gamma tolerance) [5..38])))"
proof (cases "linalg_det dieltens = 0")
  case True
  then show ?thesis by (simp add: real_sum_def linalg_inv_def)
next
  case False
  let ?shell = "r_sum_at a1 a2 a3 r (mat_scale (1 / linalg_det dieltens) (adjugate dieltens))
       (linalg_det dieltens) gamma"
  let ?pre = "q / sqrt (linalg_det dieltens)"
  have conv: "converged_at ?shell ?pre (tolerance / hart_to_ev) = accepted_at a1 a2 a3 r q dieltens gamma tolerance"
    by (rule ext) (simp add: converged_at_def accepted_at_def cube_sum_def)
  have "real_sum_loop ?shell ?pre (tolerance / hart_to_ev) 2 0 (partial_sums ?shell ?pre 2) =
     (case find (converged_at ?shell ?pre (tolerance / hart_to_ev)) [max 2 5..38] of
        None \<Rightarrow> None
      | Some M \<Rightarrow> Some (?pre * ?shell M))"
    by (rule real_sum_loop_find) simp_all
  then have "real_sum_loop ?shell ?pre (tolerance / hart_to_ev) 2 0 [] =
      map_option (cube_sum a1 a2 a3 r q dieltens gamma)
                  (find (accepted_at a1 a2 a3 r q dieltens gamma tolerance) [5..38])"
    unfolding conv by (simp add: partial_sums_def cube_sum_def split: option.splits)
  with False show ?thesis
    by (simp add: real_sum_def linalg_inv_def Let_def)
qed

lemma cube_sum_neg:
  "cube_sum a1 a2 a3 r (- q) dieltens gamma N = - cube_sum a1 a2 a3 r q dieltens gamma N"
  by (simp add: cube_sum_def)

lemma accepted_at_neg:
  "accepted_at a1 a2 a3 r (- q) dieltens gamma tolerance = accepted_at a1 a2 a3 r q dieltens gamma tolerance"
  by (rule ext) (simp add: accepted_at_def cube_sum_neg)

lemma real_sum_neg:
  "real_sum a1 a2 a3 r (- q) dieltens gamma tolerance =
     map_sum id (map_option uminus) (real_sum a1 a2 a3 r q dieltens gamma tolerance)"
  by (simp add: real_sum_find accepted_at_neg option.map_comp comp_def cube_sum_neg)

subsection \<open>The point-charge energy\<close>

lemma pc_formula_neg:
  "pc_formula (- q) (- real_space) g0 vol determ gamma = pc_formula q real_space g0 vol determ gamma"
  by (simp add: pc_formula_def algebra_simps)

lemma anisotropic_pc_energy_unfold:
  "anisotropic_pc_energy struct g_sum dieltens q gamma tolerance =
     (case mat_scale ang_to_bohr (matrix (lattice struct)) of (a1, a2, a3) \<Rightarrow>
      if linalg_det dieltens = 0 then Inl LinAlgError
      else case getitem g_sum (0, 0, 0) of
        Inl e \<Rightarrow> Inl e
      | Inr g0 \<Rightarrow>
         (case find (accepted_at a1 a2 a3 (0, 0, 0) q dieltens gamma tolerance) [5..38] of
            None \<Rightarrow> Inl TypeError
          | Some N \<Rightarrow>
              Inr (pc_formula q (cube_sum a1 a2 a3 (0, 0, 0) q dieltens gamma N) g0
                     (dot a1 (cross a2 a3)) (linalg_det dieltens) gamma)))"
proof -
  obtain a1 a2 a3 where b: "mat_scale ang_to_bohr (matrix (lattice struct)) = (a1, a2, a3)"
    by (cases "mat_scale ang_to_bohr (matrix (lattice struct))") auto
  show ?thesis
  proof (cases "linalg_det dieltens = 0")
    case True
    then show ?thesis
      by (simp add: anisotropic_pc_energy_def kumagai_init_def linalg_inv_def Let_def b)
  next
    case False
    then have k: "kumagai_init struct dieltens =
        Inr (matrix (lattice struct), (a1, a2, a3), dot a1 (cross a2 a3), linalg_det dieltens,
             mat_scale (1 / linalg_det dieltens) (adjugate dieltens))"
      by (simp add: kumagai_init_def linalg_inv_def Let_def b)
    show ?thesis
    proof (cases "getitem g_sum (0, 0, 0)")
      case (Inl e)
      with False show ?thesis
        unfolding anisotropic_pc_energy_def k b by simp
    next
      case (Inr g0)
      show ?thesis
      proof (cases "find (accepted_at a1 a2 a3 (0, 0, 0) q dieltens gamma tolerance) [5..38]")
        case None
        with False Inr show ?thesis
          unfolding anisotropic_pc_energy_def k b
          by (simp add: real_sum_find Let_def)
      next
        case (Some N)
        with False Inr show ?thesis
          unfolding anisotropic_pc_energy_def k b
          by (simp add: real_sum_find Let_def pc_formula_def hart_to_ev_def)
      qed
    qed
  qed
qed

subsection \<open>A bound on \<^verbatim>\<open>erfc\<close> near zero\<close>

lemma erf_term_bound: "\<bar>erf_term x n\<bar> \<le> \<bar>x\<bar> * ((x\<^sup>2) ^ n /\<^sub>R fact n)"
proof -
  have "\<bar>erf_term x n\<bar> = \<bar>x\<bar> * (x\<^sup>2) ^ n / (fact n * real (2 * n + 1))"
    by (simp add: erf_term_def abs_mult power_abs power_mult [symmetric] power_even_abs)
  also have "\<dots> \<le> \<bar>x\<bar> * (x\<^sup>2) ^ n / fact n"
    by (intro divide_left_mono mult_nonneg_nonneg) (auto simp: fact_gt_zero)
  finally show ?thesis by (simp add: field_simps)
qed

lemma erf_term_abs_summable: "summable (\<lambda>n. \<bar>erf_term x n\<bar>)"
proof (rule summable_rabs_comparison_test)
  show "summable (\<lambda>n. \<bar>x\<bar> * ((x\<^sup>2) ^ n /\<^sub>R fact n))"
    by (intro summable_mult summable_exp_generic)
  show "\<exists>N. \<forall>n\<ge>N. \<bar>erf_term x n\<bar> \<le> \<bar>x\<bar> * ((x\<^sup>2) ^ n /\<^sub>R fact n)"
    using erf_term_bound by blast
qed

lemma erf_series_bound: "\<bar>\<Sum>n. erf_term x n\<bar> \<le> \<bar>x\<bar> * exp (x\<^sup>2)"
proof -
  have s: "summable (\<lambda>n. \<bar>x\<bar> * ((x\<^sup>2) ^ n /\<^sub>R fact n))"
    by (intro summable_mult summable_exp_generic)
  have sa: "summable (\<lambda>n. \<bar>erf_term x n\<bar>)"
    by (rule erf_term_abs_summable)
  have "\<bar>\<Sum>n. erf_term x n\<bar> \<le> (\<Sum>n. \<bar>erf_term x n\<bar>)"
    by (rule summable_rabs [OF sa])
  also have "\<dots> \<le> (\<Sum>n. \<bar>x\<bar> * ((x\<^sup>2) ^ n /\<^sub>R fact n))"
    by (rule suminf_le [OF erf_term_bound sa s])
  also have "\<dots> = \<bar>x\<bar> * (\<Sum>n. (x\<^sup>2) ^ n /\<^sub>R fact n)"
    by (rule suminf_mult [OF summable_exp_generic])
  also have "\<dots> = \<bar>x\<bar> * exp (x\<^sup>2)"
    by (simp add: exp_def)
  finally show ?thesis .
qed

lemma exp_quarter_le: "exp (1 / 4 :: real) \<le> sqrt pi"
proof (rule real_le_rsqrt)
  have "(exp (1 / 4 :: real))\<^sup>2 = exp (1 / 2)"
    by (simp add: power2_eq_square exp_add [symmetric])
  also have "\<dots> \<le> 2" using exp_bound_half [of "1 / 2 :: real"] by simp
  also have "\<dots> \<le> pi" by (rule pi_ge_two)
  finally show "(exp (1 / 4 :: real))\<^sup>2 \<le> pi" .
qed

lemma erfc_bound:
  assumes "x\<^sup>2 \<le> 1 / 4"
  shows "\<bar>erfc x\<bar> \<le> 2"
proof -
  have ax: "\<bar>x\<bar> \<le> 1 / 2"
    using assms abs_le_square_iff [of x "1 / 2"] by (simp add: power2_eq_square)
  have "exp (x\<^sup>2) \<le> exp (1 / 4)" using assms by simp
  then have e: "exp (x\<^sup>2) \<le> sqrt pi" using exp_quarter_le by linarith
  have "\<bar>x\<bar> * exp (x\<^sup>2) \<le> 1 / 2 * sqrt pi"
    by (intro mult_mono ax e) auto
  with erf_series_bound [of x] have "\<bar>\<Sum>n. erf_term x n\<bar> \<le> 1 / 2 * sqrt pi" by linarith
  then have "2 / sqrt pi * \<bar>\<Sum>n. erf_term x n\<bar> \<le> 2 / sqrt pi * (1 / 2 * sqrt pi)"
    by (intro mult_left_mono) auto
  also have "\<dots> = 1" by simp
  finally have "\<bar>2 / sqrt pi * (\<Sum>n. erf_term x n)\<bar> \<le> 1"
    by (simp add: abs_mult)
  then show ?thesis unfolding erfc_def by linarith
qed

subsection \<open>The first element of an interval that passes a test\<close>

lemma find_upto_Some:
  "find P [a..b] = Some N \<longleftrightarrow> a \<le> N \<and> N \<le> b \<and> P N \<and> (\<forall>M. a \<le> M \<and> M < N \<longrightarrow> \<not> P M)"
proof (induction "nat (b + 1 - a)" arbitrary: a)
  case 0
  then have "[a..b] = []" by simp
  then show ?case by auto
next
  case (Suc n)
  then have ab: "a \<le> b" by simp
  then have u: "[a..b] = a # [a + 1..b]" by (simp add: upto_rec1)
  have IH: "find P [a + 1..b] = Some N \<longleftrightarrow>
      a + 1 \<le> N \<and> N \<le> b \<and> P N \<and> (\<forall>M. a + 1 \<le> M \<and> M < N \<longrightarrow> \<not> P M)"
    using Suc.hyps(2) by (intro Suc.hyps(1)) simp
  show ?case
  proof (cases "P a")
    case True
    then show ?thesis unfolding u using ab by (auto simp: not_less)
  next
    case False
    then have "find P [a..b] = find P [a + 1..b]" unfolding u by simp
    moreover have "(a \<le> N \<and> N \<le> b \<and> P N \<and> (\<forall>M. a \<le> M \<and> M < N \<longrightarrow> \<not> P M)) \<longleftrightarrow>
         (a + 1 \<le> N \<and> N \<le> b \<and> P N \<and> (\<forall>M. a + 1 \<le> M \<and> M < N \<longrightarrow> \<not> P M))"
      using False by (smt (verit, best))
    ultimately show ?thesis using IH by simp
  qed
qed

lemma find_upto_None:
  "find P [a..b] = None \<longleftrightarrow> (\<forall>M. a \<le> M \<and> M \<le> b \<longrightarrow> \<not> P M)"
  by (auto simp: find_None_iff)

subsection \<open>The cubic cell: bounds on the partial sums\<close>

lemma set_cube: "(i, j, k) \<in> set (cube N) \<longleftrightarrow> \<bar>i\<bar> \<le> N \<and> \<bar>j\<bar> \<le> N \<and> \<bar>k\<bar> \<le> N"
  by (auto simp: cube_def image_iff)

lemma length_cube: "0 \<le> N \<Longrightarrow> length (cube N) = nat (2 * N + 1) ^ 3"
  by (simp add: cube_def length_concat comp_def sum_list_triv power3_eq_cube)

lemma sum_list_abs_bound:
  "(\<And>x. x \<in> set xs \<Longrightarrow> \<bar>f x\<bar> \<le> B) \<Longrightarrow> \<bar>sum_list (map f xs)\<bar> \<le> real (length xs) * (B :: real)"
proof (induction xs)
  case Nil
  then show ?case by simp
next
  case (Cons a xs)
  have "\<bar>f a\<bar> \<le> B" using Cons.prems by simp
  moreover have "\<bar>sum_list (map f xs)\<bar> \<le> real (length xs) * B"
    using Cons by simp
  ultimately show ?case by (simp add: algebra_simps)
qed

lemma eye3_inverse: "linalg_det eye3 = 1" "mat_scale 1 (adjugate eye3) = eye3"
  by (simp_all add: eye3_def)

lemma mat_vec_eye3: "mat_vec eye3 v = v"
  by (cases v) (simp add: eye3_def)

lemma summand_eye3_bound:
  assumes c: "0 < c" and lo: "c\<^sup>2 \<le> dot v v" and hi: "gamma\<^sup>2 * dot v v \<le> 1 / 4"
  shows "\<bar>summand eye3 1 gamma v\<bar> \<le> 2 / c"
proof -
  define loc where "loc = dot v v"
  have loc_pos: "0 < loc" using lo c unfolding loc_def by (smt (verit) zero_less_power2)
  have sq_ge: "c \<le> sqrt loc"
    using lo c unfolding loc_def by (simp add: real_le_rsqrt)
  have "(gamma * sqrt loc)\<^sup>2 = gamma\<^sup>2 * loc" using loc_pos by (simp add: power_mult_distrib)
  then have "(gamma * sqrt loc)\<^sup>2 \<le> 1 / 4" using hi unfolding loc_def by simp
  then have e: "\<bar>erfc (gamma * sqrt loc)\<bar> \<le> 2" by (rule erfc_bound)
  have "\<bar>erfc (gamma * sqrt loc) / sqrt loc\<bar> = \<bar>erfc (gamma * sqrt loc)\<bar> / sqrt loc"
    using loc_pos by simp
  also have "\<dots> \<le> 2 / c"
    using e sq_ge c by (intro frac_le) auto
  finally show ?thesis
    by (simp add: summand_def Let_def mat_vec_eye3 loc_def)
qed

lemma int_squares_bound:
  fixes i j k :: int
  assumes "\<bar>i\<bar> \<le> 5" "\<bar>j\<bar> \<le> 5" "\<bar>k\<bar> \<le> 5"
  shows "i\<^sup>2 + j\<^sup>2 + k\<^sup>2 \<le> 75"
proof -
  have "i\<^sup>2 \<le> 25" "j\<^sup>2 \<le> 25" "k\<^sup>2 \<le> 25"
    using assms abs_le_square_iff [of i 5] abs_le_square_iff [of j 5] abs_le_square_iff [of k 5]
    by simp_all
  then show ?thesis by linarith
qed

lemma int_squares_pos:
  fixes i j k :: int
  assumes "(i, j, k) \<noteq> (0, 0, 0)"
  shows "1 \<le> i\<^sup>2 + j\<^sup>2 + k\<^sup>2"
proof -
  have "i \<noteq> 0 \<or> j \<noteq> 0 \<or> k \<noteq> 0" using assms by simp
  then have "0 < i\<^sup>2 + j\<^sup>2 + k\<^sup>2"
    by (metis add_pos_nonneg add_nonneg_pos zero_le_power2 zero_less_power2 add_nonneg_nonneg)
  then show ?thesis by simp
qed

text \<open>The cubic cell of edge \<open>L\<close> and the displacement zero.\<close>

lemma summand_cubic_bound:
  fixes L gamma :: real
  assumes L: "0 < L" and ijk: "(i, j, k) \<noteq> (0, 0, 0)"
    and rng: "\<bar>i\<bar> \<le> 5" "\<bar>j\<bar> \<le> 5" "\<bar>k\<bar> \<le> 5"
    and small: "gamma\<^sup>2 * L\<^sup>2 * 75 \<le> 1 / 4"
  shows "\<bar>summand eye3 1 gamma (lattice_point (L, 0, 0) (0, L, 0) (0, 0, L) (i, j, k))\<bar> \<le> 2 / L"
proof (rule summand_eye3_bound [OF L])
  define t :: real where "t = real_of_int (i\<^sup>2 + j\<^sup>2 + k\<^sup>2)"
  have t1: "1 \<le> t" using int_squares_pos [OF ijk] unfolding t_def by linarith
  have t75: "t \<le> 75" using int_squares_bound [OF rng] unfolding t_def by linarith
  have d: "dot (lattice_point (L, 0, 0) (0, L, 0) (0, 0, L) (i, j, k))
               (lattice_point (L, 0, 0) (0, L, 0) (0, 0, L) (i, j, k)) = L\<^sup>2 * t"
    by (simp add: lattice_point_def t_def power2_eq_square algebra_simps)
  show "L\<^sup>2 \<le> dot (lattice_point (L, 0, 0) (0, L, 0) (0, 0, L) (i, j, k))
               (lattice_point (L, 0, 0) (0, L, 0) (0, 0, L) (i, j, k))"
    unfolding d using t1 L by simp
  have "gamma\<^sup>2 * (L\<^sup>2 * t) \<le> gamma\<^sup>2 * (L\<^sup>2 * 75)"
    using t75 by (intro mult_left_mono) auto
  then show "gamma\<^sup>2 * dot (lattice_point (L, 0, 0) (0, L, 0) (0, 0, L) (i, j, k))
               (lattice_point (L, 0, 0) (0, L, 0) (0, 0, L) (i, j, k)) \<le> 1 / 4"
    unfolding d using small by (simp add: mult.assoc)
qed

lemma cube_sum_cubic_bound:
  fixes L gamma :: real
  assumes L: "0 < L" and N: "0 \<le> N" "N \<le> 5"
    and small: "gamma\<^sup>2 * L\<^sup>2 * 75 \<le> 1 / 4"
  shows "\<bar>cube_sum (L, 0, 0) (0, L, 0) (0, 0, L) (0, 0, 0) q eye3 gamma N\<bar>
           \<le> \<bar>q\<bar> * (real (nat (2 * N + 1) ^ 3) * (2 / L))"
proof -
  let ?f = "\<lambda>ijk. summand eye3 1 gamma (lattice_point (L, 0, 0) (0, L, 0) (0, 0, L) ijk)"
  let ?xs = "filter (\<lambda>ijk. ijk \<noteq> (0, 0, 0)) (cube N)"
  have b: "\<bar>?f x\<bar> \<le> 2 / L" if "x \<in> set ?xs" for x
  proof -
    obtain i j k where x: "x = (i, j, k)" by (cases x) auto
    from that have "(i, j, k) \<in> set (cube N)" and ne: "(i, j, k) \<noteq> (0, 0, 0)"
      unfolding x by auto
    then have "\<bar>i\<bar> \<le> 5" "\<bar>j\<bar> \<le> 5" "\<bar>k\<bar> \<le> 5"
      using N by (auto simp: set_cube)
    then show ?thesis unfolding x using summand_cubic_bound [OF L ne _ _ _ small] by blast
  qed
  have "\<bar>sum_list (map ?f ?xs)\<bar> \<le> real (length ?xs) * (2 / L)"
    by (rule sum_list_abs_bound) (rule b)
  also have "\<dots> \<le> real (length (cube N)) * (2 / L)"
    using L by (intro mult_right_mono) auto
  also have "\<dots> = real (nat (2 * N + 1) ^ 3) * (2 / L)"
    using N by (simp add: length_cube)
  finally have s: "\<bar>sum_list (map ?f ?xs)\<bar> \<le> real (nat (2 * N + 1) ^ 3) * (2 / L)" .
  have "cube_sum (L, 0, 0) (0, L, 0) (0, 0, L) (0, 0, 0) q eye3 gamma N = q * sum_list (map ?f ?xs)"
    by (simp add: cube_sum_def eye3_inverse r_sum_at_def norm_v_def)
  then have "\<bar>cube_sum (L, 0, 0) (0, L, 0) (0, 0, L) (0, 0, 0) q eye3 gamma N\<bar>
      = \<bar>q\<bar> * \<bar>sum_list (map ?f ?xs)\<bar>"
    by (simp add: abs_mult)
  also have "\<dots> \<le> \<bar>q\<bar> * (real (nat (2 * N + 1) ^ 3) * (2 / L))"
    by (intro mult_left_mono s) simp
  finally show ?thesis .
qed

lemma cubic_cell_bohr:
  "mat_scale ang_to_bohr (matrix (lattice cubic_cell)) =
     ((ang_to_bohr, 0, 0), (0, ang_to_bohr, 0), (0, 0, ang_to_bohr))"
  by (simp add: cubic_cell_def cubic_lattice_def)

lemma ang_to_bohr_small: "(1 / 100 :: real)\<^sup>2 * ang_to_bohr\<^sup>2 * 75 \<le> 1 / 4"
  by (simp add: ang_to_bohr_def power2_eq_square)

lemma cubic_cube_sum_le:
  assumes "N = 4 \<or> N = 5"
  shows "\<bar>cube_sum (ang_to_bohr, 0, 0) (0, ang_to_bohr, 0) (0, 0, ang_to_bohr) (0, 0, 0) q eye3 (1 / 100) N\<bar>
     \<le> \<bar>q\<bar> * 1409"
proof -
  have "\<bar>cube_sum (ang_to_bohr, 0, 0) (0, ang_to_bohr, 0) (0, 0, ang_to_bohr) (0, 0, 0) q eye3 (1 / 100) N\<bar>
     \<le> \<bar>q\<bar> * (real (nat (2 * N + 1) ^ 3) * (2 / ang_to_bohr))"
    using assms by (intro cube_sum_cubic_bound [OF _ _ _ ang_to_bohr_small]) (auto simp: ang_to_bohr_def)
  also have "\<dots> \<le> \<bar>q\<bar> * 1409"
    using assms by (intro mult_left_mono) (auto simp: ang_to_bohr_def)
  finally show ?thesis .
qed

lemma cubic_accepted_5:
  "accepted_at (ang_to_bohr, 0, 0) (0, ang_to_bohr, 0) (0, 0, ang_to_bohr) (0, 0, 0) 1 eye3 (1 / 100) 100000 5"
proof -
  have "(1409 :: real) < 100000 / hart_to_ev" by (simp add: hart_to_ev_def)
  then show ?thesis
    using cubic_cube_sum_le [of 5 1] cubic_cube_sum_le [of 4 1]
    unfolding accepted_at_def by simp
qed

lemma cubic_find_5:
  "find (accepted_at (ang_to_bohr, 0, 0) (0, ang_to_bohr, 0) (0, 0, ang_to_bohr) (0, 0, 0) 1 eye3
           (1 / 100) 100000) [5..38] = Some 5"
  using cubic_accepted_5 by (subst upto_rec1) simp_all

lemma zeros_origin: "getitem (zeros (2, 2, 2)) (0, 0, 0) = Inr 0"
  by (simp add: zeros_def np_index_def)

lemma cubic_vol:
  "dot (ang_to_bohr, 0, 0) (cross (0, ang_to_bohr, 0) (0, 0, ang_to_bohr)) = ang_to_bohr ^ 3"
  by (simp add: power3_eq_cube)

lemma cubic_pc_energy:
  "anisotropic_pc_energy cubic_cell (zeros (2, 2, 2)) eye3 1 (1 / 100) 100000 =
     Inr (pc_formula 1
            (cube_sum (ang_to_bohr, 0, 0) (0, ang_to_bohr, 0) (0, 0, ang_to_bohr) (0, 0, 0) 1 eye3 (1 / 100) 5)
            0 (ang_to_bohr ^ 3) 1 (1 / 100))"
  by (subst anisotropic_pc_energy_unfold,
      simp only: cubic_cell_bohr prod.case cubic_find_5 zeros_origin cubic_vol eye3_inverse
        sum.case option.case,
      simp)

lemma cubic_pc_energy_pos:
  "0 < pc_formula 1
            (cube_sum (ang_to_bohr, 0, 0) (0, ang_to_bohr, 0) (0, 0, ang_to_bohr) (0, 0, 0) 1 eye3 (1 / 100) 5)
            0 (ang_to_bohr ^ 3) 1 (1 / 100)"
proof -
  let ?S = "cube_sum (ang_to_bohr, 0, 0) (0, ang_to_bohr, 0) (0, 0, ang_to_bohr) (0, 0, 0) 1 eye3 (1 / 100) 5"
  have S: "?S \<le> 1409" using cubic_cube_sum_le [of 5 1] by simp
  have "(2963 :: real) \<le> 2 / (ang_to_bohr ^ 3 * (1 / 100)\<^sup>2)"
    by (simp add: ang_to_bohr_def power3_eq_cube power2_eq_square)
  also have "\<dots> \<le> pi / (ang_to_bohr ^ 3 * (1 / 100)\<^sup>2)"
    by (intro divide_right_mono pi_ge_two) (simp add: ang_to_bohr_def)
  finally have self: "2963 \<le> 1 * pi / (ang_to_bohr ^ 3 * (1 / 100)\<^sup>2)" by simp
  have surf: "0 \<le> 2 * (1 / 100) * 1 / sqrt (pi * 1)" by simp
  have "?S + 1 * 0 - 1 * pi / (ang_to_bohr ^ 3 * (1 / 100)\<^sup>2) - 2 * (1 / 100) * 1 / sqrt (pi * 1) < 0"
    using S self surf by linarith
  then show ?thesis
    unfolding pc_formula_def by (simp add: mult_neg_pos)
qed

subsection \<open>The left-handed cubic cell: bounds on the partial sums\<close>

lemma lh_cell_bohr:
  "mat_scale ang_to_bohr (matrix (lattice lh_cell)) =
     ((0, ang_to_bohr, 0), (ang_to_bohr, 0, 0), (0, 0, ang_to_bohr))"
  by (simp add: lh_cell_def lh_lattice_def)

lemma lh_vol:
  "dot (0, ang_to_bohr, 0) (cross (ang_to_bohr, 0, 0) (0, 0, ang_to_bohr)) = - (ang_to_bohr ^ 3)"
  by (simp add: power3_eq_cube)

lemma lh_volume: "volume (lattice lh_cell) = 1"
  by (simp add: lh_cell_def lh_lattice_def)

lemma summand_lh_bound:
  fixes L gamma :: real
  assumes L: "0 < L" and ijk: "(i, j, k) \<noteq> (0, 0, 0)"
    and rng: "\<bar>i\<bar> \<le> 5" "\<bar>j\<bar> \<le> 5" "\<bar>k\<bar> \<le> 5"
    and small: "gamma\<^sup>2 * L\<^sup>2 * 75 \<le> 1 / 4"
  shows "\<bar>summand eye3 1 gamma (lattice_point (0, L, 0) (L, 0, 0) (0, 0, L) (i, j, k))\<bar> \<le> 2 / L"
proof (rule summand_eye3_bound [OF L])
  define t :: real where "t = real_of_int (i\<^sup>2 + j\<^sup>2 + k\<^sup>2)"
  have t1: "1 \<le> t" using int_squares_pos [OF ijk] unfolding t_def by linarith
  have t75: "t \<le> 75" using int_squares_bound [OF rng] unfolding t_def by linarith
  have d: "dot (lattice_point (0, L, 0) (L, 0, 0) (0, 0, L) (i, j, k))
               (lattice_point (0, L, 0) (L, 0, 0) (0, 0, L) (i, j, k)) = L\<^sup>2 * t"
    by (simp add: lattice_point_def t_def power2_eq_square algebra_simps)
  show "L\<^sup>2 \<le> dot (lattice_point (0, L, 0) (L, 0, 0) (0, 0, L) (i, j, k))
               (lattice_point (0, L, 0) (L, 0, 0) (0, 0, L) (i, j, k))"
    unfolding d using t1 L by simp
  have "gamma\<^sup>2 * (L\<^sup>2 * t) \<le> gamma\<^sup>2 * (L\<^sup>2 * 75)"
    using t75 by (intro mult_left_mono) auto
  then show "gamma\<^sup>2 * dot (lattice_point (0, L, 0) (L, 0, 0) (0, 0, L) (i, j, k))
               (lattice_point (0, L, 0) (L, 0, 0) (0, 0, L) (i, j, k)) \<le> 1 / 4"
    unfolding d using small by (simp add: mult.assoc)
qed

lemma cube_sum_lh_bound:
  fixes L gamma :: real
  assumes L: "0 < L" and N: "0 \<le> N" "N \<le> 5"
    and small: "gamma\<^sup>2 * L\<^sup>2 * 75 \<le> 1 / 4"
  shows "\<bar>cube_sum (0, L, 0) (L, 0, 0) (0, 0, L) (0, 0, 0) q eye3 gamma N\<bar>
           \<le> \<bar>q\<bar> * (real (nat (2 * N + 1) ^ 3) * (2 / L))"
proof -
  let ?f = "\<lambda>ijk. summand eye3 1 gamma (lattice_point (0, L, 0) (L, 0, 0) (0, 0, L) ijk)"
  let ?xs = "filter (\<lambda>ijk. ijk \<noteq> (0, 0, 0)) (cube N)"
  have b: "\<bar>?f x\<bar> \<le> 2 / L" if "x \<in> set ?xs" for x
  proof -
    obtain i j k where x: "x = (i, j, k)" by (cases x) auto
    from that have "(i, j, k) \<in> set (cube N)" and ne: "(i, j, k) \<noteq> (0, 0, 0)"
      unfolding x by auto
    then have "\<bar>i\<bar> \<le> 5" "\<bar>j\<bar> \<le> 5" "\<bar>k\<bar> \<le> 5"
      using N by (auto simp: set_cube)
    then show ?thesis unfolding x using summand_lh_bound [OF L ne _ _ _ small] by blast
  qed
  have "\<bar>sum_list (map ?f ?xs)\<bar> \<le> real (length ?xs) * (2 / L)"
    by (rule sum_list_abs_bound) (rule b)
  also have "\<dots> \<le> real (length (cube N)) * (2 / L)"
    using L by (intro mult_right_mono) auto
  also have "\<dots> = real (nat (2 * N + 1) ^ 3) * (2 / L)"
    using N by (simp add: length_cube)
  finally have s: "\<bar>sum_list (map ?f ?xs)\<bar> \<le> real (nat (2 * N + 1) ^ 3) * (2 / L)" .
  have "cube_sum (0, L, 0) (L, 0, 0) (0, 0, L) (0, 0, 0) q eye3 gamma N = q * sum_list (map ?f ?xs)"
    by (simp add: cube_sum_def eye3_inverse r_sum_at_def norm_v_def)
  then have "\<bar>cube_sum (0, L, 0) (L, 0, 0) (0, 0, L) (0, 0, 0) q eye3 gamma N\<bar>
      = \<bar>q\<bar> * \<bar>sum_list (map ?f ?xs)\<bar>"
    by (simp add: abs_mult)
  also have "\<dots> \<le> \<bar>q\<bar> * (real (nat (2 * N + 1) ^ 3) * (2 / L))"
    by (intro mult_left_mono s) simp
  finally show ?thesis .
qed

lemma lh_cube_sum_le:
  assumes "N = 4 \<or> N = 5"
  shows "\<bar>cube_sum (0, ang_to_bohr, 0) (ang_to_bohr, 0, 0) (0, 0, ang_to_bohr) (0, 0, 0) q eye3 (1 / 100) N\<bar>
     \<le> \<bar>q\<bar> * 1409"
proof -
  have "\<bar>cube_sum (0, ang_to_bohr, 0) (ang_to_bohr, 0, 0) (0, 0, ang_to_bohr) (0, 0, 0) q eye3 (1 / 100) N\<bar>
     \<le> \<bar>q\<bar> * (real (nat (2 * N + 1) ^ 3) * (2 / ang_to_bohr))"
    using assms by (intro cube_sum_lh_bound [OF _ _ _ ang_to_bohr_small]) (auto simp: ang_to_bohr_def)
  also have "\<dots> \<le> \<bar>q\<bar> * 1409"
    using assms by (intro mult_left_mono) (auto simp: ang_to_bohr_def)
  finally show ?thesis .
qed

lemma lh_find_5:
  "find (accepted_at (0, ang_to_bohr, 0) (ang_to_bohr, 0, 0) (0, 0, ang_to_bohr) (0, 0, 0) 1 eye3
           (1 / 100) 100000) [5..38] = Some 5"
proof -
  have "(1409 :: real) < 100000 / hart_to_ev" by (simp add: hart_to_ev_def)
  then have "accepted_at (0, ang_to_bohr, 0) (ang_to_bohr, 0, 0) (0, 0, ang_to_bohr) (0, 0, 0) 1 eye3
           (1 / 100) 100000 5"
    using lh_cube_sum_le [of 5 1] lh_cube_sum_le [of 4 1]
    unfolding accepted_at_def by simp
  then show ?thesis by (subst upto_rec1) simp_all
qed

lemma lh_real_sum:
  "real_sum (0, ang_to_bohr, 0) (ang_to_bohr, 0, 0) (0, 0, ang_to_bohr) (0, 0, 0) 1 eye3
     (1 / 100) 100000 =
   Inr (Some (cube_sum (0, ang_to_bohr, 0) (ang_to_bohr, 0, 0) (0, 0, ang_to_bohr) (0, 0, 0) 1
                eye3 (1 / 100) 5))"
  unfolding real_sum_find lh_find_5 by (simp add: eye3_inverse)

subsection \<open>Claims on the point-charge energy\<close>

text \<open>
  What \<^verbatim>\<open>anisotropic_pc_energy\<close> computes, for every input: 
  \<open>- q * 1/2 * (real-space sum + q * g_sum[0,0,0] - q * pi / (vol * gamma\<^sup>2)
  - 2 * gamma * q / sqrt (pi * det D)) * 27.2114\<close>, where the real-space sum is the value of
  \<^verbatim>\<open>real_sum\<close> at the displacement zero, \<open>det D\<close> the determinant of the dielectric
  tensor and \<open>vol\<close> the triple product \<open>a1 \<cdot> (a2 \<times> a3)\<close> of the lattice vectors in Bohr
  that \<^verbatim>\<open>kumagai_init\<close> computes: the cell volume on a right-handed lattice, its negative
  on a left-handed one. Nothing is returned on the other branches: a singular tensor raises
  in \<^verbatim>\<open>np.linalg.inv\<close>, an empty grid raises on \<^verbatim>\<open>g_sum[0,0,0]\<close>, and a real-space
  sum that did not converge is \<^verbatim>\<open>None\<close>, on which the arithmetic raises a
  \<^verbatim>\<open>TypeError\<close>.
\<close>

theorem pc_energy_formula:
  "anisotropic_pc_energy struct g_sum dieltens q gamma tolerance =
     (case mat_scale ang_to_bohr (matrix (lattice struct)) of (a1, a2, a3) \<Rightarrow>
      if linalg_det dieltens = 0 then Inl LinAlgError
      else case getitem g_sum (0, 0, 0) of
        Inl e \<Rightarrow> Inl e
      | Inr g0 \<Rightarrow>
         (case real_sum a1 a2 a3 (0, 0, 0) q dieltens gamma tolerance of
            Inl e \<Rightarrow> Inl e
          | Inr None \<Rightarrow> Inl TypeError
          | Inr (Some real_space) \<Rightarrow>
              Inr (- q * (1 / 2) *
                   (real_space + q * g0 - q * pi / (dot a1 (cross a2 a3) * gamma\<^sup>2)
                      - 2 * gamma * q / sqrt (pi * linalg_det dieltens)) * 27.2114)))"
  unfolding anisotropic_pc_energy_unfold real_sum_find
  by (simp add: pc_formula_def split: prod.splits sum.splits option.splits)

text \<open>
  Claim C1 has the self-interaction term \<open>q * pi / (volume * gamma\<^sup>2)\<close> subtracted, for
  every structure. \<^verbatim>\<open>anisotropic_pc_energy\<close> divides by the signed triple product of
  \<^verbatim>\<open>kumagai_init\<close>, where \<^verbatim>\<open>reciprocal_sum\<close> takes the positive
  \<^verbatim>\<open>latt.volume\<close>. On the cubic cell with its first two lattice vectors exchanged
  (a left-handed lattice of volume 1), with the unit dielectric tensor, a grid of zeros,
  \<open>q = 1\<close>, \<open>gamma = 0.01\<close> and a tolerance of \<open>100000\<close> eV, the real-space sum is accepted
  at \<open>N = 5\<close> and the energy returned has the self-interaction term added: it is not the
  value of the claim's formula.
\<close>

theorem pc_energy_left_handed:
  "anisotropic_pc_energy lh_cell (zeros (2, 2, 2)) eye3 1 (1 / 100) 100000 =
     Inr (- 1 * (1 / 2) *
          (cube_sum (0, ang_to_bohr, 0) (ang_to_bohr, 0, 0) (0, 0, ang_to_bohr) (0, 0, 0) 1 eye3
             (1 / 100) 5
           + 1 * 0
           + 1 * pi / (volume (lattice lh_cell) * ang_to_bohr ^ 3 * (1 / 100)\<^sup>2)
           - 2 * (1 / 100) * 1 / sqrt (pi * linalg_det eye3)) * 27.2114) \<and>
   real_sum (0, ang_to_bohr, 0) (ang_to_bohr, 0, 0) (0, 0, ang_to_bohr) (0, 0, 0) 1 eye3
     (1 / 100) 100000 =
     Inr (Some (cube_sum (0, ang_to_bohr, 0) (ang_to_bohr, 0, 0) (0, 0, ang_to_bohr) (0, 0, 0) 1
                  eye3 (1 / 100) 5)) \<and>
   anisotropic_pc_energy lh_cell (zeros (2, 2, 2)) eye3 1 (1 / 100) 100000 \<noteq>
     Inr (- 1 * (1 / 2) *
          (cube_sum (0, ang_to_bohr, 0) (ang_to_bohr, 0, 0) (0, 0, ang_to_bohr) (0, 0, 0) 1 eye3
             (1 / 100) 5
           + 1 * 0
           - 1 * pi / (volume (lattice lh_cell) * ang_to_bohr ^ 3 * (1 / 100)\<^sup>2)
           - 2 * (1 / 100) * 1 / sqrt (pi * linalg_det eye3)) * 27.2114)"
proof -
  let ?S = "cube_sum (0, ang_to_bohr, 0) (ang_to_bohr, 0, 0) (0, 0, ang_to_bohr) (0, 0, 0) 1 eye3
             (1 / 100) 5"
  have e: "anisotropic_pc_energy lh_cell (zeros (2, 2, 2)) eye3 1 (1 / 100) 100000 =
      Inr (pc_formula 1 ?S 0 (- (ang_to_bohr ^ 3)) 1 (1 / 100))"
    by (subst anisotropic_pc_energy_unfold,
        simp only: lh_cell_bohr prod.case lh_find_5 zeros_origin lh_vol eye3_inverse
          sum.case option.case,
        simp)
  have p: "0 < pi / (ang_to_bohr ^ 3 * (1 / 100)\<^sup>2)"
    by (simp add: ang_to_bohr_def)
  have f1: "pc_formula 1 ?S 0 (- (ang_to_bohr ^ 3)) 1 (1 / 100) =
      - 1 * (1 / 2) * (?S + 1 * 0 + 1 * pi / (1 * ang_to_bohr ^ 3 * (1 / 100)\<^sup>2)
           - 2 * (1 / 100) * 1 / sqrt (pi * 1)) * 27.2114"
    by (simp add: pc_formula_def)
  have f2: "- 1 * (1 / 2) * (?S + 1 * 0 + 1 * pi / (1 * ang_to_bohr ^ 3 * (1 / 100)\<^sup>2)
           - 2 * (1 / 100) * 1 / sqrt (pi * 1)) * 27.2114 \<noteq>
      - 1 * (1 / 2) * (?S + 1 * 0 - 1 * pi / (1 * ang_to_bohr ^ 3 * (1 / 100)\<^sup>2)
           - 2 * (1 / 100) * 1 / sqrt (pi * 1)) * (27.2114 :: real)"
    using p by (simp add: ang_to_bohr_def)
  show ?thesis
    unfolding e f1 lh_volume eye3_inverse(1) using f2 lh_real_sum by simp
qed

text \<open>
  Claim C2 says that the energies for \<open>q\<close> and \<open>- q\<close> are equal in magnitude and
  opposite in sign. On the cubic cell of edge 1 Angstrom, with the unit dielectric tensor,
  a grid of zeros, \<open>gamma = 0.01\<close> and a tolerance of \<open>100000\<close> eV, the energy for
  \<open>q = 1\<close> is returned and positive, and the energy for \<open>q = - 1\<close> is the same number:
  the two have the same sign.
\<close>

theorem pc_energy_odd_counterexample:
  "\<not> isl (anisotropic_pc_energy cubic_cell (zeros (2, 2, 2)) eye3 1 (1 / 100) 100000) \<and>
   0 < projr (anisotropic_pc_energy cubic_cell (zeros (2, 2, 2)) eye3 1 (1 / 100) 100000) \<and>
   anisotropic_pc_energy cubic_cell (zeros (2, 2, 2)) eye3 (- 1) (1 / 100) 100000 =
   anisotropic_pc_energy cubic_cell (zeros (2, 2, 2)) eye3 1 (1 / 100) 100000"
proof -
  have "anisotropic_pc_energy cubic_cell (zeros (2, 2, 2)) eye3 (- 1) (1 / 100) 100000 =
   anisotropic_pc_energy cubic_cell (zeros (2, 2, 2)) eye3 1 (1 / 100) 100000"
    unfolding anisotropic_pc_energy_unfold accepted_at_neg cube_sum_neg pc_formula_neg ..
  then show ?thesis
    using cubic_pc_energy_pos by (simp add: cubic_pc_energy)
qed

text \<open>
  Claim C2, amended. For a fixed structure, grid, dielectric tensor, gamma and tolerance,
  the point-charge energies computed for \<open>q\<close> and for \<open>- q\<close> are equal in magnitude and
  equal in sign (and the two calls fail alike when one of them fails).
\<close>

theorem pc_energy_same_magnitude_and_sign:
  "map_sum id abs (anisotropic_pc_energy struct g_sum dieltens (- q) gamma tolerance) =
     map_sum id abs (anisotropic_pc_energy struct g_sum dieltens q gamma tolerance) \<and>
   map_sum id sgn (anisotropic_pc_energy struct g_sum dieltens (- q) gamma tolerance) =
     map_sum id sgn (anisotropic_pc_energy struct g_sum dieltens q gamma tolerance)"
  unfolding anisotropic_pc_energy_unfold accepted_at_neg cube_sum_neg pc_formula_neg
  by simp

text \<open>
  Claim C10. The point-charge energy is an even function of the charge: the call for
  \<open>- q\<close> gives what the call for \<open>q\<close> gives. The real-space sum changes sign with
  \<open>q\<close> (it is accepted at the same pass, the test comparing magnitudes), as do the
  reciprocal, self-interaction and surface terms, which are multiples of \<open>q\<close>, and the
  total is multiplied by \<open>- q / 2\<close>.
\<close>

theorem pc_energy_even:
  "anisotropic_pc_energy struct g_sum dieltens (- q) gamma tolerance =
     anisotropic_pc_energy struct g_sum dieltens q gamma tolerance \<and>
   real_sum a1 a2 a3 r (- q) dieltens gamma tolerance =
     map_sum id (map_option uminus) (real_sum a1 a2 a3 r q dieltens gamma tolerance)"
  unfolding anisotropic_pc_energy_unfold accepted_at_neg cube_sum_neg pc_formula_neg
  by (simp add: real_sum_neg)

subsection \<open>Claim on the real-space sum\<close>

text \<open>
  Claim C6 says that \<^verbatim>\<open>real_sum\<close> fails with a ConvergenceError when the cap is
  reached without convergence. With a tolerance of zero no pass is ever accepted; at
  \<^verbatim>\<open>N = 39\<close> the function logs a warning and returns \<^verbatim>\<open>None\<close>: it raises
  nothing.
\<close>

theorem real_sum_cap_counterexample:
  "real_sum (ang_to_bohr, 0, 0) (0, ang_to_bohr, 0) (0, 0, ang_to_bohr) (0, 0, 0) 1 eye3 (1 / 100) 0
     = Inr None"
proof -
  have "find (accepted_at (ang_to_bohr, 0, 0) (0, ang_to_bohr, 0) (0, 0, ang_to_bohr) (0, 0, 0) 1
                eye3 (1 / 100) 0) [5..38] = None"
    unfolding find_upto_None by (simp add: accepted_at_def)
  then show ?thesis
    unfolding real_sum_find by (simp add: eye3_inverse)
qed

text \<open>
  Claim C6, amended. The real-space lattice sum is computed over the cubes of lattice
  translations \<open>i, j, k \<in> [- N, N]\<close> for \<open>N = 2, 3, \<dots>\<close>, each cube holding the one
  before. From the fourth cube on (\<open>N \<ge> 5\<close>) the sum of the current cube is accepted, and
  returned, at the first \<open>N\<close> at which its magnitude and that of the cube before differ by
  less than the tolerance divided by 27.2114. The search is capped: when no \<open>N \<le> 38\<close> is
  accepted, the function stops at \<open>N = 39\<close>, logs a warning and returns \<^verbatim>\<open>None\<close>;
  it raises no exception (for an invertible dielectric tensor).
\<close>

theorem real_sum_shells:
  assumes "linalg_det dieltens \<noteq> 0"
  shows
    "(real_sum a1 a2 a3 r q dieltens gamma tolerance = Inr (Some s) \<longleftrightarrow>
        (\<exists>N. 5 \<le> N \<and> N \<le> 38 \<and> accepted_at a1 a2 a3 r q dieltens gamma tolerance N \<and>
             (\<forall>M. 5 \<le> M \<and> M < N \<longrightarrow> \<not> accepted_at a1 a2 a3 r q dieltens gamma tolerance M) \<and>
             s = cube_sum a1 a2 a3 r q dieltens gamma N)) \<and>
     (real_sum a1 a2 a3 r q dieltens gamma tolerance = Inr None \<longleftrightarrow>
        (\<forall>N. 5 \<le> N \<and> N \<le> 38 \<longrightarrow> \<not> accepted_at a1 a2 a3 r q dieltens gamma tolerance N)) \<and>
     \<not> isl (real_sum a1 a2 a3 r q dieltens gamma tolerance) \<and>
     set (cube N) = {(i, j, k). \<bar>i\<bar> \<le> N \<and> \<bar>j\<bar> \<le> N \<and> \<bar>k\<bar> \<le> N} \<and>
     set (cube N) \<subseteq> set (cube (N + 1))"
proof -
  let ?P = "accepted_at a1 a2 a3 r q dieltens gamma tolerance"
  have rs: "real_sum a1 a2 a3 r q dieltens gamma tolerance =
      Inr (map_option (cube_sum a1 a2 a3 r q dieltens gamma) (find ?P [5..38]))"
    using assms by (simp add: real_sum_find)
  have some: "real_sum a1 a2 a3 r q dieltens gamma tolerance = Inr (Some s) \<longleftrightarrow>
        (\<exists>N. 5 \<le> N \<and> N \<le> 38 \<and> ?P N \<and> (\<forall>M. 5 \<le> M \<and> M < N \<longrightarrow> \<not> ?P M) \<and>
             s = cube_sum a1 a2 a3 r q dieltens gamma N)" (is "?L \<longleftrightarrow> ?R")
  proof
    assume ?L
    then obtain N where f: "find ?P [5..38] = Some N"
      and s: "s = cube_sum a1 a2 a3 r q dieltens gamma N"
      unfolding rs by (cases "find ?P [5..38]") auto
    from f have "5 \<le> N \<and> N \<le> 38 \<and> ?P N \<and> (\<forall>M. 5 \<le> M \<and> M < N \<longrightarrow> \<not> ?P M)"
      unfolding find_upto_Some .
    with s show ?R by blast
  next
    assume ?R
    then obtain N where N: "5 \<le> N \<and> N \<le> 38 \<and> ?P N \<and> (\<forall>M. 5 \<le> M \<and> M < N \<longrightarrow> \<not> ?P M)"
      and s: "s = cube_sum a1 a2 a3 r q dieltens gamma N" by blast
    from N have "find ?P [5..38] = Some N" unfolding find_upto_Some .
    with s show ?L unfolding rs by simp
  qed
  have none: "real_sum a1 a2 a3 r q dieltens gamma tolerance = Inr None \<longleftrightarrow>
        (\<forall>N. 5 \<le> N \<and> N \<le> 38 \<longrightarrow> \<not> ?P N)"
    unfolding rs by (simp only: sum.inject map_option_is_None find_upto_None)
  have cube: "set (cube N) = {(i, j, k). \<bar>i\<bar> \<le> N \<and> \<bar>j\<bar> \<le> N \<and> \<bar>k\<bar> \<le> N}"
    using set_cube [of _ _ _ N] by blast
  have sub: "set (cube N) \<subseteq> set (cube (N + 1))"
  proof
    fix x assume x: "x \<in> set (cube N)"
    obtain i j k where xe: "x = (i, j, k)" by (cases x) auto
    from x have "\<bar>i\<bar> \<le> N \<and> \<bar>j\<bar> \<le> N \<and> \<bar>k\<bar> \<le> N" unfolding xe set_cube .
    then have "\<bar>i\<bar> \<le> N + 1 \<and> \<bar>j\<bar> \<le> N + 1 \<and> \<bar>k\<bar> \<le> N + 1" by linarith
    then show "x \<in> set (cube (N + 1))" unfolding xe set_cube .
  qed
  have ret: "\<not> isl (real_sum a1 a2 a3 r q dieltens gamma tolerance)"
    unfolding rs by simp
  show ?thesis
    by (intro conjI some none ret cube sub)
qed

theorem real_sum_shells_witness:
  "real_sum (ang_to_bohr, 0, 0) (0, ang_to_bohr, 0) (0, 0, ang_to_bohr) (0, 0, 0) 1 eye3
     (1 / 100) 100000 =
   Inr (Some (cube_sum (ang_to_bohr, 0, 0) (0, ang_to_bohr, 0) (0, 0, ang_to_bohr) (0, 0, 0) 1
                eye3 (1 / 100) 5))"
proof -
  have d: "linalg_det eye3 \<noteq> 0" by (simp add: eye3_inverse)
  have "\<exists>N. 5 \<le> N \<and> N \<le> 38 \<and>
      accepted_at (ang_to_bohr, 0, 0) (0, ang_to_bohr, 0) (0, 0, ang_to_bohr) (0, 0, 0) 1 eye3
        (1 / 100) 100000 N \<and>
      (\<forall>M. 5 \<le> M \<and> M < N \<longrightarrow>
         \<not> accepted_at (ang_to_bohr, 0, 0) (0, ang_to_bohr, 0) (0, 0, ang_to_bohr) (0, 0, 0) 1 eye3
             (1 / 100) 100000 M) \<and>
      cube_sum (ang_to_bohr, 0, 0) (0, ang_to_bohr, 0) (0, 0, ang_to_bohr) (0, 0, 0) 1 eye3
        (1 / 100) 5 =
      cube_sum (ang_to_bohr, 0, 0) (0, ang_to_bohr, 0) (0, 0, ang_to_bohr) (0, 0, 0) 1 eye3
        (1 / 100) N"
    using cubic_accepted_5 by (intro exI [of _ 5]) auto
  then show ?thesis
    using conjunct1 [OF real_sum_shells [OF d, of "(ang_to_bohr, 0, 0)" "(0, ang_to_bohr, 0)"
        "(0, 0, ang_to_bohr)" "(0, 0, 0)" 1 "1 / 100" 100000
        "cube_sum (ang_to_bohr, 0, 0) (0, ang_to_bohr, 0) (0, 0, ang_to_bohr) (0, 0, 0) 1
                eye3 (1 / 100) 5"]]
    by (rule iffD2 [rotated])
qed

subsection \<open>The grid index of a fractional coordinate\<close>

lemma wrap_up_frac: "wrap_up r = (if r < 0 then frac r else r)"
proof (induction r rule: wrap_up.induct)
  case (1 r)
  show ?case
  proof (cases "r < 0")
    case True
    have f: "frac (r + 1) = frac r" by (simp add: frac_def)
    show ?thesis
    proof (cases "r + 1 < 0")
      case True
      with \<open>r < 0\<close> "1.IH" f show ?thesis by (subst wrap_up.simps) simp
    next
      case False
      with \<open>r < 0\<close> have "\<lfloor>r\<rfloor> = - 1" by linarith
      then have "frac r = r + 1" by (simp add: frac_def)
      with False \<open>r < 0\<close> "1.IH" show ?thesis by (subst wrap_up.simps) simp
    qed
  next
    case False
    then show ?thesis by (subst wrap_up.simps) simp
  qed
qed

lemma wrap_down_frac: "wrap_down r = (if 1 \<le> r then frac r else r)"
proof (induction r rule: wrap_down.induct)
  case (1 r)
  show ?case
  proof (cases "1 \<le> r")
    case True
    have f: "frac (r - 1) = frac r" by (simp add: frac_def)
    show ?thesis
    proof (cases "1 \<le> r - 1")
      case True
      with \<open>1 \<le> r\<close> "1.IH" f show ?thesis by (subst wrap_down.simps) simp
    next
      case False
      with \<open>1 \<le> r\<close> have "\<lfloor>r\<rfloor> = 1" by linarith
      then have "frac r = r - 1" by (simp add: frac_def)
      with False \<open>1 \<le> r\<close> "1.IH" show ?thesis by (subst wrap_down.simps) simp
    qed
  next
    case False
    then show ?thesis by (subst wrap_down.simps) simp
  qed
qed

lemma wrap_unit_frac: "wrap_unit r = frac r"
proof -
  have "frac r = r" if "0 \<le> r" "r < 1"
    using that by (simp add: frac_eq)
  then show ?thesis
    by (auto simp: wrap_unit_def wrap_up_frac wrap_down_frac not_less not_le)
qed

lemma argmin_least:
  "xs \<noteq> [] \<Longrightarrow> argmin xs < length xs \<and> (\<forall>j<length xs. xs ! argmin xs \<le> xs ! j)"
proof (induction xs rule: argmin.induct)
  case 1
  then show ?case by simp
next
  case (2 x)
  then show ?case by simp
next
  case (3 x y ys)
  then have IH: "argmin (y # ys) < length (y # ys)"
    "\<And>j. j < length (y # ys) \<Longrightarrow> (y # ys) ! argmin (y # ys) \<le> (y # ys) ! j"
    by auto
  show ?case
  proof (cases "x \<le> (y # ys) ! argmin (y # ys)")
    case True
    then have a: "argmin (x # y # ys) = 0" by simp
    have "(x # y # ys) ! 0 \<le> (x # y # ys) ! j" if "j < length (x # y # ys)" for j
    proof (cases j)
      case 0
      then show ?thesis by simp
    next
      case (Suc j')
      with that have "j' < length (y # ys)" by simp
      from IH(2) [OF this] True Suc show ?thesis by simp
    qed
    then show ?thesis unfolding a by simp
  next
    case False
    then have a: "argmin (x # y # ys) = Suc (argmin (y # ys))" by simp
    have "(x # y # ys) ! Suc (argmin (y # ys)) \<le> (x # y # ys) ! j" if "j < length (x # y # ys)" for j
    proof (cases j)
      case 0
      with False show ?thesis by simp
    next
      case (Suc j')
      with that have "j' < length (y # ys)" by simp
      from IH(2) [OF this] Suc show ?thesis by simp
    qed
    then show ?thesis unfolding a using IH(1) by simp
  qed
qed

lemma abs_scale:
  fixes a x y :: real
  assumes "0 \<le> a"
  shows "\<bar>x * a - y * a\<bar> = a * \<bar>x - y\<bar>"
proof -
  have "x * a - y * a = a * (x - y)" by (simp add: algebra_simps)
  then show ?thesis using assms by (simp add: abs_mult)
qed

lemma axis_index_eq:
  assumes "0 \<le> abc_i"
  shows "axis_index abc_i n r =
     (if n < 2 then Inl IndexError
      else Inr (argmin (map (\<lambda>m. \<bar>real m / real n * abc_i - frac r * abc_i\<bar>) [0..<n])))"
proof (cases "n < 2")
  case True
  then show ?thesis by (simp add: axis_index_def Let_def)
next
  case False
  then have n: "2 \<le> n" by simp
  define x where "x = map (\<lambda>m. real m / real n * abc_i) [0..<n]"
  define d where "d = map (\<lambda>m. \<bar>real m / real n * abc_i - frac r * abc_i\<bar>) [0..<n]"
  have dd: "map (\<lambda>xn. \<bar>xn - wrap_unit r * abc_i\<bar>) x = d"
    unfolding x_def d_def by (simp add: comp_def wrap_unit_frac)
  have lx: "\<not> length x < 2" unfolding x_def using n by simp
  have dx: "x ! 1 - x ! 0 = abc_i / real n" unfolding x_def using n by simp
  have len: "length d = n" unfolding d_def by simp
  have nth: "d ! m = \<bar>real m / real n * abc_i - frac r * abc_i\<bar>" if "m < n" for m
    unfolding d_def using that by simp
  define m0 where "m0 = nat \<lfloor>frac r * real n\<rfloor>"
  have fr: "0 \<le> frac r" "frac r < 1" by (simp_all add: frac_lt_1)
  have npos: "0 < real n" using n by simp
  have fl0: "0 \<le> \<lfloor>frac r * real n\<rfloor>" using fr npos by simp
  have "frac r * real n < real n" using fr npos by simp
  then have fllt: "\<lfloor>frac r * real n\<rfloor> < int n" by linarith
  then have m0n: "m0 < n" unfolding m0_def using fl0 by linarith
  have m0r: "real m0 = of_int \<lfloor>frac r * real n\<rfloor>" unfolding m0_def using fl0 by simp
  have lo: "real m0 \<le> frac r * real n" unfolding m0r by linarith
  have hi: "frac r * real n < real m0 + 1" unfolding m0r by linarith
  have "\<bar>real m0 / real n - frac r\<bar> \<le> 1 / real n"
  proof -
    have "real m0 / real n \<le> frac r" using lo npos by (simp add: field_simps)
    moreover have "frac r < (real m0 + 1) / real n" using hi npos by (simp add: field_simps)
    moreover have "(real m0 + 1) / real n = real m0 / real n + 1 / real n"
      by (simp add: add_divide_distrib)
    ultimately show ?thesis by linarith
  qed
  then have "abc_i * \<bar>real m0 / real n - frac r\<bar> \<le> abc_i * (1 / real n)"
    using assms by (rule mult_left_mono)
  moreover have "\<bar>real m0 / real n * abc_i - frac r * abc_i\<bar> = abc_i * \<bar>real m0 / real n - frac r\<bar>"
    using assms by (rule abs_scale)
  ultimately have d0: "d ! m0 \<le> abc_i / real n" using nth [OF m0n] by simp
  have ne: "d \<noteq> []" using n len by auto
  from argmin_least [OF ne] m0n len have "d ! argmin d \<le> d ! m0" by simp
  with d0 have "d ! argmin d \<le> abc_i / real n" by linarith
  moreover have "abc_i / real n \<le> abc_i / real n * 1.1"
    using assms npos by (simp add: field_simps)
  ultimately have ok: "\<not> d ! argmin d > abc_i / real n * 1.1" by linarith
  have "axis_index abc_i n r = Inr (argmin d)"
    unfolding axis_index_def Let_def x_def [symmetric] dd dx using lx ok by simp
  then show ?thesis using n unfolding d_def by simp
qed

lemma axis_index_nearest:
  assumes "0 < abc_i" and "axis_index abc_i n r = Inr i"
  shows "nearest_index n r i"
proof -
  define d where "d = map (\<lambda>m. \<bar>real m / real n * abc_i - frac r * abc_i\<bar>) [0..<n]"
  from assms have n: "2 \<le> n" and i: "i = argmin d"
    unfolding d_def by (auto simp: axis_index_eq split: if_splits)
  have len: "length d = n" unfolding d_def by simp
  have sc: "\<bar>real m / real n * abc_i - frac r * abc_i\<bar> = abc_i * \<bar>real m / real n - frac r\<bar>" for m
    using assms(1) by (intro abs_scale) simp
  have nth: "d ! m = abc_i * \<bar>real m / real n - frac r\<bar>" if "m < n" for m
    unfolding d_def using that by (simp only: nth_map length_upt nth_upt minus_nat.diff_0 add_0 sc)
  have ne: "d \<noteq> []" using n len by auto
  from argmin_least [OF ne] have lt: "i < n" and le: "\<And>j. j < n \<Longrightarrow> d ! i \<le> d ! j"
    unfolding i len by auto
  have "\<bar>real i / real n - frac r\<bar> \<le> \<bar>real m / real n - frac r\<bar>" if "m < n" for m
  proof -
    from le [OF that] have "abc_i * \<bar>real i / real n - frac r\<bar> \<le> abc_i * \<bar>real m / real n - frac r\<bar>"
      unfolding nth [OF lt] nth [OF that] .
    then show ?thesis using assms(1) by simp
  qed
  with lt show ?thesis by (simp add: nearest_index_def)
qed

subsection \<open>Claim on the Madelung potential\<close>

lemma norm_v_zero_iff: "norm_v r = 0 \<longleftrightarrow> r = (0, 0, 0)"
proof -
  obtain x y z where r: "r = (x, y, z)" by (cases r) auto
  have "x * x + y * y + z * z = 0 \<longleftrightarrow> x = 0 \<and> y = 0 \<and> z = 0"
    by (smt (verit) mult_eq_0_iff sum_squares_eq_zero_iff zero_le_square)
  then show ?thesis by (simp add: r norm_v_def)
qed

lemma anisotropic_madelung_potential_unfold:
  "anisotropic_madelung_potential struct dims g_sum r dieltens q gamma tolerance =
     (case mat_scale ang_to_bohr (matrix (lattice struct)) of (a1, a2, a3) \<Rightarrow>
      if linalg_det dieltens = 0 then Inl LinAlgError
      else case get_g_sum_at_r g_sum struct dims r of
        Inl e \<Rightarrow> Inl e
      | Inr g \<Rightarrow>
         (case find (accepted_at a1 a2 a3 r q dieltens gamma tolerance) [5..38] of
            None \<Rightarrow> Inl TypeError
          | Some N \<Rightarrow>
              Inr (hart_to_ev * (cube_sum a1 a2 a3 r q dieltens gamma N + q * g
                     - q * pi / (dot a1 (cross a2 a3) * gamma\<^sup>2)))))"
proof -
  obtain a1 a2 a3 where b: "mat_scale ang_to_bohr (matrix (lattice struct)) = (a1, a2, a3)"
    by (cases "mat_scale ang_to_bohr (matrix (lattice struct))") auto
  show ?thesis
  proof (cases "linalg_det dieltens = 0")
    case True
    then show ?thesis
      by (simp add: anisotropic_madelung_potential_def kumagai_init_def linalg_inv_def Let_def b)
  next
    case False
    then have k: "kumagai_init struct dieltens =
        Inr (matrix (lattice struct), (a1, a2, a3), dot a1 (cross a2 a3), linalg_det dieltens,
             mat_scale (1 / linalg_det dieltens) (adjugate dieltens))"
      by (simp add: kumagai_init_def linalg_inv_def Let_def b)
    show ?thesis
    proof (cases "get_g_sum_at_r g_sum struct dims r")
      case (Inl e)
      with False show ?thesis
        unfolding anisotropic_madelung_potential_def k b by simp
    next
      case (Inr g)
      show ?thesis
      proof (cases "find (accepted_at a1 a2 a3 r q dieltens gamma tolerance) [5..38]")
        case None
        with False Inr show ?thesis
          unfolding anisotropic_madelung_potential_def k b
          by (simp add: real_sum_find Let_def)
      next
        case (Some N)
        with False Inr show ?thesis
          unfolding anisotropic_madelung_potential_def k b
          by (simp add: real_sum_find Let_def)
      qed
    qed
  qed
qed

text \<open>
  What \<^verbatim>\<open>anisotropic_madelung_potential\<close> computes for a nonzero displacement \<open>r\<close>:
  \<open>(real-space sum at r + q * g_sum[i,j,k] - q * pi / (vol * gamma\<^sup>2)) * 27.2114\<close>, with no
  surface term. The real-space sum is the value of \<^verbatim>\<open>real_sum\<close> at \<open>r\<close>, where every
  pass sums over the whole cube of lattice translations; \<open>(i, j, k)\<close> is the index that
  \<^verbatim>\<open>getgridind\<close> gives for the fractional coordinates of \<open>r\<close>, along each axis (of
  positive length) a grid point nearest to the coordinate taken into \<open>[0, 1)\<close>; and
  \<open>vol\<close> is the triple product \<open>a1 \<cdot> (a2 \<times> a3)\<close> of \<^verbatim>\<open>kumagai_init\<close>: the cell
  volume on a right-handed lattice, its negative on a left-handed one. Nothing is returned
  when the tensor is singular, the grid has an axis of fewer than two points, the index is
  outside \<open>g_sum\<close> or the real-space sum did not converge.
\<close>

theorem madelung_potential_formula:
  assumes r: "r \<noteq> (0, 0, 0)"
    and l: "abc (lattice struct) = (la, lb, lc)" "0 < la" "0 < lb" "0 < lc"
    and f: "get_fractional_coords (lattice struct) r = (f0, f1, f2)"
    and d: "dims = (nx, ny, nz)"
    and b: "mat_scale ang_to_bohr (matrix (lattice struct)) = (a1, a2, a3)"
  shows
    "anisotropic_madelung_potential struct dims g_sum r dieltens q gamma tolerance =
       (if linalg_det dieltens = 0 then Inl LinAlgError
        else case getgridind struct dims (f0, f1, f2) of
          Inl e \<Rightarrow> Inl e
        | Inr (i, j, k) \<Rightarrow>
           (case getitem g_sum (int i, int j, int k) of
              Inl e \<Rightarrow> Inl e
            | Inr g \<Rightarrow>
               (case real_sum a1 a2 a3 r q dieltens gamma tolerance of
                  Inl e \<Rightarrow> Inl e
                | Inr None \<Rightarrow> Inl TypeError
                | Inr (Some real_space) \<Rightarrow>
                    Inr ((real_space + q * g - q * pi / (dot a1 (cross a2 a3) * gamma\<^sup>2))
                           * 27.2114)))) \<and>
     (\<forall>i j k. getgridind struct dims (f0, f1, f2) = Inr (i, j, k) \<longrightarrow>
        nearest_index nx f0 i \<and> nearest_index ny f1 j \<and> nearest_index nz f2 k) \<and>
     (\<forall>invdiel determ N. r_sum_at a1 a2 a3 r invdiel determ gamma N =
        sum_list (map (\<lambda>ijk. summand invdiel determ gamma (vsub (lattice_point a1 a2 a3 ijk) r))
                      (cube N)))"
proof (intro conjI allI impI)
  show "anisotropic_madelung_potential struct dims g_sum r dieltens q gamma tolerance =
       (if linalg_det dieltens = 0 then Inl LinAlgError
        else case getgridind struct dims (f0, f1, f2) of
          Inl e \<Rightarrow> Inl e
        | Inr (i, j, k) \<Rightarrow>
           (case getitem g_sum (int i, int j, int k) of
              Inl e \<Rightarrow> Inl e
            | Inr g \<Rightarrow>
               (case real_sum a1 a2 a3 r q dieltens gamma tolerance of
                  Inl e \<Rightarrow> Inl e
                | Inr None \<Rightarrow> Inl TypeError
                | Inr (Some real_space) \<Rightarrow>
                    Inr ((real_space + q * g - q * pi / (dot a1 (cross a2 a3) * gamma\<^sup>2))
                           * 27.2114))))"
    unfolding anisotropic_madelung_potential_unfold b real_sum_find get_g_sum_at_r_def f Let_def
    by (simp add: hart_to_ev_def mult.commute split: sum.splits option.splits prod.splits)
next
  fix i j k
  assume g: "getgridind struct dims (f0, f1, f2) = Inr (i, j, k)"
  then have "axis_index la nx f0 = Inr i" "axis_index lb ny f1 = Inr j" "axis_index lc nz f2 = Inr k"
    unfolding getgridind_def l d by (auto split: sum.splits)
  with l show "nearest_index nx f0 i" "nearest_index ny f1 j" "nearest_index nz f2 k"
    by (auto intro: axis_index_nearest)
next
  fix invdiel determ N
  show "r_sum_at a1 a2 a3 r invdiel determ gamma N =
        sum_list (map (\<lambda>ijk. summand invdiel determ gamma (vsub (lattice_point a1 a2 a3 ijk) r))
                      (cube N))"
    using r by (simp add: r_sum_at_def norm_v_zero_iff)
qed


text \<open>
  An instance: the cubic cell, the displacement \<open>(1/2, 0, 0)\<close>, a 2x2x2 grid.
\<close>

lemma offset_square_bounds:
  fixes L :: real and i :: int
  assumes L: "1 \<le> L" and i: "\<bar>i\<bar> \<le> 5"
  shows "1 / 4 \<le> (L * real_of_int i - 1 / 2)\<^sup>2" and "(L * real_of_int i - 1 / 2)\<^sup>2 \<le> (5 * L + 1 / 2)\<^sup>2"
proof -
  have "\<bar>1 / 2 :: real\<bar> \<le> \<bar>L * real_of_int i - 1 / 2\<bar>"
  proof (cases "i \<le> 0")
    case True
    then have "L * real_of_int i \<le> 0" using L by (simp add: mult_nonneg_nonpos)
    then show ?thesis by simp
  next
    case False
    then have "1 \<le> real_of_int i" by linarith
    then have "1 * 1 \<le> L * real_of_int i" using L by (intro mult_mono) auto
    then show ?thesis by simp
  qed
  then have "(1 / 2 :: real)\<^sup>2 \<le> (L * real_of_int i - 1 / 2)\<^sup>2"
    by (simp only: abs_le_square_iff)
  then show "1 / 4 \<le> (L * real_of_int i - 1 / 2)\<^sup>2" by (simp add: power2_eq_square)
  have "\<bar>real_of_int i\<bar> \<le> 5" using i by linarith
  then have "L * \<bar>real_of_int i\<bar> \<le> L * 5" using L by (intro mult_left_mono) auto
  then have "\<bar>L * real_of_int i\<bar> \<le> 5 * L" using L by (simp add: abs_mult)
  then have "\<bar>L * real_of_int i - 1 / 2\<bar> \<le> \<bar>5 * L + 1 / 2\<bar>" using L by linarith
  then show "(L * real_of_int i - 1 / 2)\<^sup>2 \<le> (5 * L + 1 / 2)\<^sup>2"
    by (simp only: abs_le_square_iff)
qed

lemma int_square_le_25:
  fixes L :: real and j :: int
  assumes "\<bar>j\<bar> \<le> 5"
  shows "(L * real_of_int j)\<^sup>2 \<le> 25 * L\<^sup>2"
proof -
  have "j\<^sup>2 \<le> 25" using assms abs_le_square_iff [of j 5] by simp
  then have "(real_of_int j)\<^sup>2 \<le> 25" by (metis of_int_le_iff of_int_numeral of_int_power)
  then have "L\<^sup>2 * (real_of_int j)\<^sup>2 \<le> L\<^sup>2 * 25" by (intro mult_left_mono) auto
  then show ?thesis by (simp add: power_mult_distrib mult.commute)
qed

lemma summand_offset_bound:
  fixes L gamma :: real
  assumes L: "1 \<le> L"
    and rng: "\<bar>i\<bar> \<le> 5" "\<bar>j\<bar> \<le> 5" "\<bar>k\<bar> \<le> 5"
    and small: "gamma\<^sup>2 * ((5 * L + 1 / 2)\<^sup>2 + 50 * L\<^sup>2) \<le> 1 / 4"
  shows "\<bar>summand eye3 1 gamma
           (vsub (lattice_point (L, 0, 0) (0, L, 0) (0, 0, L) (i, j, k)) (1 / 2, 0, 0))\<bar> \<le> 4"
proof -
  let ?v = "vsub (lattice_point (L, 0, 0) (0, L, 0) (0, 0, L) (i, j, k)) (1 / 2, 0, 0)"
  have d: "dot ?v ?v = (L * real_of_int i - 1 / 2)\<^sup>2 + (L * real_of_int j)\<^sup>2 + (L * real_of_int k)\<^sup>2"
    by (simp add: lattice_point_def power2_eq_square mult.commute)
  have q: "((1 / 2) :: real)\<^sup>2 = 1 / 4" by (simp add: power2_eq_square)
  have nn: "0 \<le> (L * real_of_int j)\<^sup>2" "0 \<le> (L * real_of_int k)\<^sup>2" by simp_all
  have lo: "(1 / 2)\<^sup>2 \<le> dot ?v ?v"
    unfolding d q using offset_square_bounds(1) [OF L rng(1)] nn by linarith
  have "dot ?v ?v \<le> (5 * L + 1 / 2)\<^sup>2 + 50 * L\<^sup>2"
    unfolding d using offset_square_bounds(2) [OF L rng(1)] int_square_le_25 [OF rng(2), of L]
      int_square_le_25 [OF rng(3), of L] by linarith
  then have "gamma\<^sup>2 * dot ?v ?v \<le> gamma\<^sup>2 * ((5 * L + 1 / 2)\<^sup>2 + 50 * L\<^sup>2)"
    by (intro mult_left_mono) auto
  then have hi: "gamma\<^sup>2 * dot ?v ?v \<le> 1 / 4" using small by linarith
  have "\<bar>summand eye3 1 gamma ?v\<bar> \<le> 2 / (1 / 2)"
    by (rule summand_eye3_bound [OF _ lo hi]) simp
  then show ?thesis by simp
qed

lemma cube_sum_offset_bound:
  fixes L gamma :: real
  assumes L: "1 \<le> L" and N: "0 \<le> N" "N \<le> 5"
    and small: "gamma\<^sup>2 * ((5 * L + 1 / 2)\<^sup>2 + 50 * L\<^sup>2) \<le> 1 / 4"
  shows "\<bar>cube_sum (L, 0, 0) (0, L, 0) (0, 0, L) (1 / 2, 0, 0) q eye3 gamma N\<bar>
           \<le> \<bar>q\<bar> * (real (nat (2 * N + 1) ^ 3) * 4)"
proof -
  let ?f = "\<lambda>ijk. summand eye3 1 gamma
              (vsub (lattice_point (L, 0, 0) (0, L, 0) (0, 0, L) ijk) (1 / 2, 0, 0))"
  have b: "\<bar>?f x\<bar> \<le> 4" if "x \<in> set (cube N)" for x
  proof -
    obtain i j k where x: "x = (i, j, k)" by (cases x) auto
    from that have "\<bar>i\<bar> \<le> 5" "\<bar>j\<bar> \<le> 5" "\<bar>k\<bar> \<le> 5"
      unfolding x using N by (auto simp: set_cube)
    then show ?thesis unfolding x using summand_offset_bound [OF L _ _ _ small] by blast
  qed
  have "\<bar>sum_list (map ?f (cube N))\<bar> \<le> real (length (cube N)) * 4"
    by (rule sum_list_abs_bound) (rule b)
  also have "\<dots> = real (nat (2 * N + 1) ^ 3) * 4"
    using N by (simp add: length_cube)
  finally have s: "\<bar>sum_list (map ?f (cube N))\<bar> \<le> real (nat (2 * N + 1) ^ 3) * 4" .
  have "cube_sum (L, 0, 0) (0, L, 0) (0, 0, L) (1 / 2, 0, 0) q eye3 gamma N
          = q * sum_list (map ?f (cube N))"
    by (simp add: cube_sum_def eye3_inverse r_sum_at_def norm_v_def)
  then have "\<bar>cube_sum (L, 0, 0) (0, L, 0) (0, 0, L) (1 / 2, 0, 0) q eye3 gamma N\<bar>
      = \<bar>q\<bar> * \<bar>sum_list (map ?f (cube N))\<bar>"
    by (simp add: abs_mult)
  also have "\<dots> \<le> \<bar>q\<bar> * (real (nat (2 * N + 1) ^ 3) * 4)"
    by (intro mult_left_mono s) simp
  finally show ?thesis .
qed

lemma ang_to_bohr_offset_small:
  "(1 / 100 :: real)\<^sup>2 * ((5 * ang_to_bohr + 1 / 2)\<^sup>2 + 50 * ang_to_bohr\<^sup>2) \<le> 1 / 4"
  by (simp add: ang_to_bohr_def power2_eq_square)

lemma cubic_offset_sum_le:
  assumes "N = 4 \<or> N = 5"
  shows "\<bar>cube_sum (ang_to_bohr, 0, 0) (0, ang_to_bohr, 0) (0, 0, ang_to_bohr) (1 / 2, 0, 0) q eye3
            (1 / 100) N\<bar> \<le> \<bar>q\<bar> * 5324"
proof -
  have "\<bar>cube_sum (ang_to_bohr, 0, 0) (0, ang_to_bohr, 0) (0, 0, ang_to_bohr) (1 / 2, 0, 0) q eye3
            (1 / 100) N\<bar> \<le> \<bar>q\<bar> * (real (nat (2 * N + 1) ^ 3) * 4)"
    using assms
    by (intro cube_sum_offset_bound [OF _ _ _ ang_to_bohr_offset_small]) (auto simp: ang_to_bohr_def)
  also have "\<dots> \<le> \<bar>q\<bar> * 5324"
    using assms by (intro mult_left_mono) auto
  finally show ?thesis .
qed

lemma cubic_offset_find_5:
  "find (accepted_at (ang_to_bohr, 0, 0) (0, ang_to_bohr, 0) (0, 0, ang_to_bohr) (1 / 2, 0, 0) 1 eye3
           (1 / 100) 200000) [5..38] = Some 5"
proof -
  have "(5324 :: real) < 200000 / hart_to_ev" by (simp add: hart_to_ev_def)
  then have "accepted_at (ang_to_bohr, 0, 0) (0, ang_to_bohr, 0) (0, 0, ang_to_bohr) (1 / 2, 0, 0) 1
      eye3 (1 / 100) 200000 5"
    using cubic_offset_sum_le [of 5 1] cubic_offset_sum_le [of 4 1]
    unfolding accepted_at_def by simp
  then show ?thesis by (subst upto_rec1) simp_all
qed

lemma cubic_offset_real_sum:
  "real_sum (ang_to_bohr, 0, 0) (0, ang_to_bohr, 0) (0, 0, ang_to_bohr) (1 / 2, 0, 0) 1 eye3
     (1 / 100) 200000 =
   Inr (Some (cube_sum (ang_to_bohr, 0, 0) (0, ang_to_bohr, 0) (0, 0, ang_to_bohr) (1 / 2, 0, 0) 1
                eye3 (1 / 100) 5))"
  unfolding real_sum_find cubic_offset_find_5 by (simp add: eye3_inverse)

lemma cubic_axis_index: "axis_index 1 2 (1 / 2) = Inr 1" "axis_index 1 2 0 = Inr 0"
  by (simp_all add: axis_index_eq frac_def upt_rec)

lemma cubic_getgridind: "getgridind cubic_cell (2, 2, 2) (1 / 2, 0, 0) = Inr (1, 0, 0)"
  by (simp add: getgridind_def cubic_cell_def cubic_lattice_def cubic_axis_index)

theorem madelung_potential_formula_witness:
  "anisotropic_madelung_potential cubic_cell (2, 2, 2) (zeros (2, 2, 2)) (1 / 2, 0, 0) eye3 1
      (1 / 100) 200000 =
     Inr ((cube_sum (ang_to_bohr, 0, 0) (0, ang_to_bohr, 0) (0, 0, ang_to_bohr) (1 / 2, 0, 0) 1
             eye3 (1 / 100) 5
           + 1 * 0 - 1 * pi / (ang_to_bohr ^ 3 * (1 / 100)\<^sup>2)) * 27.2114) \<and>
   getgridind cubic_cell (2, 2, 2) (1 / 2, 0, 0) = Inr (1, 0, 0) \<and>
   nearest_index 2 (1 / 2) 1 \<and> nearest_index 2 0 0"
proof -
  have r: "(1 / 2 :: real, 0 :: real, 0 :: real) \<noteq> (0, 0, 0)" by simp
  have l: "abc (lattice cubic_cell) = (1, 1, 1)" by (simp add: cubic_cell_def cubic_lattice_def)
  have f: "get_fractional_coords (lattice cubic_cell) (1 / 2, 0, 0) = (1 / 2, 0, 0)"
    by (simp add: cubic_cell_def cubic_lattice_def)
  have d: "((2 :: nat), (2 :: nat), (2 :: nat)) = (2, 2, 2)" by simp
  note T = madelung_potential_formula [OF r l zero_less_one zero_less_one zero_less_one f d
      cubic_cell_bohr, where g_sum = "zeros (2, 2, 2)" and dieltens = eye3 and q = 1
      and gamma = "1 / 100" and tolerance = 200000]
  from T have n: "nearest_index 2 (1 / 2) 1 \<and> nearest_index 2 0 0"
    using cubic_getgridind by blast
  from T have "anisotropic_madelung_potential cubic_cell (2, 2, 2) (zeros (2, 2, 2)) (1 / 2, 0, 0)
      eye3 1 (1 / 100) 200000 =
       (if linalg_det eye3 = 0 then Inl LinAlgError
        else case getgridind cubic_cell (2, 2, 2) (1 / 2, 0, 0) of
          Inl e \<Rightarrow> Inl e
        | Inr (i, j, k) \<Rightarrow>
           (case getitem (zeros (2, 2, 2)) (int i, int j, int k) of
              Inl e \<Rightarrow> Inl e
            | Inr g \<Rightarrow>
               (case real_sum (ang_to_bohr, 0, 0) (0, ang_to_bohr, 0) (0, 0, ang_to_bohr)
                       (1 / 2, 0, 0) 1 eye3 (1 / 100) 200000 of
                  Inl e \<Rightarrow> Inl e
                | Inr None \<Rightarrow> Inl TypeError
                | Inr (Some real_space) \<Rightarrow>
                    Inr ((real_space + 1 * g
                          - 1 * pi / (dot (ang_to_bohr, 0, 0)
                                        (cross (0, ang_to_bohr, 0) (0, 0, ang_to_bohr))
                                      * (1 / 100)\<^sup>2))
                           * 27.2114))))"
    by (rule conjunct1)
  then have "anisotropic_madelung_potential cubic_cell (2, 2, 2) (zeros (2, 2, 2)) (1 / 2, 0, 0) eye3 1
      (1 / 100) 200000 =
     Inr ((cube_sum (ang_to_bohr, 0, 0) (0, ang_to_bohr, 0) (0, 0, ang_to_bohr) (1 / 2, 0, 0) 1
             eye3 (1 / 100) 5
           + 1 * 0 - 1 * pi / (ang_to_bohr ^ 3 * (1 / 100)\<^sup>2)) * 27.2114)"
    unfolding cubic_getgridind cubic_offset_real_sum cubic_vol eye3_inverse(1)
    by (simp add: zeros_def np_index_def)
  with n cubic_getgridind show ?thesis by simp
qed

text \<open>The left-handed cubic cell and the displacement \<open>(1/2, 0, 0)\<close>.\<close>

lemma summand_lh_offset_bound:
  fixes L gamma :: real
  assumes L: "1 \<le> L"
    and rng: "\<bar>i\<bar> \<le> 5" "\<bar>j\<bar> \<le> 5" "\<bar>k\<bar> \<le> 5"
    and small: "gamma\<^sup>2 * ((5 * L + 1 / 2)\<^sup>2 + 50 * L\<^sup>2) \<le> 1 / 4"
  shows "\<bar>summand eye3 1 gamma
           (vsub (lattice_point (0, L, 0) (L, 0, 0) (0, 0, L) (i, j, k)) (1 / 2, 0, 0))\<bar> \<le> 4"
proof -
  let ?v = "vsub (lattice_point (0, L, 0) (L, 0, 0) (0, 0, L) (i, j, k)) (1 / 2, 0, 0)"
  have d: "dot ?v ?v = (L * real_of_int j - 1 / 2)\<^sup>2 + (L * real_of_int i)\<^sup>2 + (L * real_of_int k)\<^sup>2"
    by (simp add: lattice_point_def power2_eq_square mult.commute)
  have q: "((1 / 2) :: real)\<^sup>2 = 1 / 4" by (simp add: power2_eq_square)
  have nn: "0 \<le> (L * real_of_int i)\<^sup>2" "0 \<le> (L * real_of_int k)\<^sup>2" by simp_all
  have lo: "(1 / 2)\<^sup>2 \<le> dot ?v ?v"
    unfolding d q using offset_square_bounds(1) [OF L rng(2)] nn by linarith
  have "dot ?v ?v \<le> (5 * L + 1 / 2)\<^sup>2 + 50 * L\<^sup>2"
    unfolding d using offset_square_bounds(2) [OF L rng(2)] int_square_le_25 [OF rng(1), of L]
      int_square_le_25 [OF rng(3), of L] by linarith
  then have "gamma\<^sup>2 * dot ?v ?v \<le> gamma\<^sup>2 * ((5 * L + 1 / 2)\<^sup>2 + 50 * L\<^sup>2)"
    by (intro mult_left_mono) auto
  then have hi: "gamma\<^sup>2 * dot ?v ?v \<le> 1 / 4" using small by linarith
  have "\<bar>summand eye3 1 gamma ?v\<bar> \<le> 2 / (1 / 2)"
    by (rule summand_eye3_bound [OF _ lo hi]) simp
  then show ?thesis by simp
qed

lemma cube_sum_lh_offset_bound:
  fixes L gamma :: real
  assumes L: "1 \<le> L" and N: "0 \<le> N" "N \<le> 5"
    and small: "gamma\<^sup>2 * ((5 * L + 1 / 2)\<^sup>2 + 50 * L\<^sup>2) \<le> 1 / 4"
  shows "\<bar>cube_sum (0, L, 0) (L, 0, 0) (0, 0, L) (1 / 2, 0, 0) q eye3 gamma N\<bar>
           \<le> \<bar>q\<bar> * (real (nat (2 * N + 1) ^ 3) * 4)"
proof -
  let ?f = "\<lambda>ijk. summand eye3 1 gamma
              (vsub (lattice_point (0, L, 0) (L, 0, 0) (0, 0, L) ijk) (1 / 2, 0, 0))"
  have b: "\<bar>?f x\<bar> \<le> 4" if "x \<in> set (cube N)" for x
  proof -
    obtain i j k where x: "x = (i, j, k)" by (cases x) auto
    from that have "\<bar>i\<bar> \<le> 5" "\<bar>j\<bar> \<le> 5" "\<bar>k\<bar> \<le> 5"
      unfolding x using N by (auto simp: set_cube)
    then show ?thesis unfolding x using summand_lh_offset_bound [OF L _ _ _ small] by blast
  qed
  have "\<bar>sum_list (map ?f (cube N))\<bar> \<le> real (length (cube N)) * 4"
    by (rule sum_list_abs_bound) (rule b)
  also have "\<dots> = real (nat (2 * N + 1) ^ 3) * 4"
    using N by (simp add: length_cube)
  finally have s: "\<bar>sum_list (map ?f (cube N))\<bar> \<le> real (nat (2 * N + 1) ^ 3) * 4" .
  have "cube_sum (0, L, 0) (L, 0, 0) (0, 0, L) (1 / 2, 0, 0) q eye3 gamma N
          = q * sum_list (map ?f (cube N))"
    by (simp add: cube_sum_def eye3_inverse r_sum_at_def norm_v_def)
  then have "\<bar>cube_sum (0, L, 0) (L, 0, 0) (0, 0, L) (1 / 2, 0, 0) q eye3 gamma N\<bar>
      = \<bar>q\<bar> * \<bar>sum_list (map ?f (cube N))\<bar>"
    by (simp add: abs_mult)
  also have "\<dots> \<le> \<bar>q\<bar> * (real (nat (2 * N + 1) ^ 3) * 4)"
    by (intro mult_left_mono s) simp
  finally show ?thesis .
qed

lemma lh_offset_sum_le:
  assumes "N = 4 \<or> N = 5"
  shows "\<bar>cube_sum (0, ang_to_bohr, 0) (ang_to_bohr, 0, 0) (0, 0, ang_to_bohr) (1 / 2, 0, 0) q eye3
            (1 / 100) N\<bar> \<le> \<bar>q\<bar> * 5324"
proof -
  have "\<bar>cube_sum (0, ang_to_bohr, 0) (ang_to_bohr, 0, 0) (0, 0, ang_to_bohr) (1 / 2, 0, 0) q eye3
            (1 / 100) N\<bar> \<le> \<bar>q\<bar> * (real (nat (2 * N + 1) ^ 3) * 4)"
    using assms
    by (intro cube_sum_lh_offset_bound [OF _ _ _ ang_to_bohr_offset_small]) (auto simp: ang_to_bohr_def)
  also have "\<dots> \<le> \<bar>q\<bar> * 5324"
    using assms by (intro mult_left_mono) auto
  finally show ?thesis .
qed

lemma lh_offset_find_5:
  "find (accepted_at (0, ang_to_bohr, 0) (ang_to_bohr, 0, 0) (0, 0, ang_to_bohr) (1 / 2, 0, 0) 1 eye3
           (1 / 100) 200000) [5..38] = Some 5"
proof -
  have "(5324 :: real) < 200000 / hart_to_ev" by (simp add: hart_to_ev_def)
  then have "accepted_at (0, ang_to_bohr, 0) (ang_to_bohr, 0, 0) (0, 0, ang_to_bohr) (1 / 2, 0, 0) 1
      eye3 (1 / 100) 200000 5"
    using lh_offset_sum_le [of 5 1] lh_offset_sum_le [of 4 1]
    unfolding accepted_at_def by simp
  then show ?thesis by (subst upto_rec1) simp_all
qed

lemma lh_offset_real_sum:
  "real_sum (0, ang_to_bohr, 0) (ang_to_bohr, 0, 0) (0, 0, ang_to_bohr) (1 / 2, 0, 0) 1 eye3
     (1 / 100) 200000 =
   Inr (Some (cube_sum (0, ang_to_bohr, 0) (ang_to_bohr, 0, 0) (0, 0, ang_to_bohr) (1 / 2, 0, 0) 1
                eye3 (1 / 100) 5))"
  unfolding real_sum_find lh_offset_find_5 by (simp add: eye3_inverse)

lemma lh_get_g_sum:
  "get_g_sum_at_r (zeros (2, 2, 2)) lh_cell (2, 2, 2) (1 / 2, 0, 0) = Inr 0"
  "getgridind lh_cell (2, 2, 2) (get_fractional_coords (lattice lh_cell) (1 / 2, 0, 0)) = Inr (0, 1, 0)"
  by (simp_all add: get_g_sum_at_r_def getgridind_def lh_cell_def lh_lattice_def cubic_axis_index
      zeros_def np_index_def)

text \<open>
  Claim C4 has the self-interaction term \<open>q * pi / (volume * gamma\<^sup>2)\<close> subtracted, for
  every structure. As in \<^verbatim>\<open>anisotropic_pc_energy\<close>, the code divides by the signed
  triple product of \<^verbatim>\<open>kumagai_init\<close>. On the left-handed cubic cell (volume 1), with a
  2x2x2 grid of zeros, the displacement \<open>(1/2, 0, 0)\<close>, the unit dielectric tensor,
  \<open>q = 1\<close>, \<open>gamma = 0.01\<close> and a tolerance of \<open>200000\<close> eV, the potential returned has
  the self-interaction term added: it is not the value of the claim's formula.
\<close>

theorem madelung_potential_left_handed:
  "anisotropic_madelung_potential lh_cell (2, 2, 2) (zeros (2, 2, 2)) (1 / 2, 0, 0) eye3 1
      (1 / 100) 200000 =
     Inr ((cube_sum (0, ang_to_bohr, 0) (ang_to_bohr, 0, 0) (0, 0, ang_to_bohr) (1 / 2, 0, 0) 1
             eye3 (1 / 100) 5
           + 1 * 0
           + 1 * pi / (volume (lattice lh_cell) * ang_to_bohr ^ 3 * (1 / 100)\<^sup>2)) * 27.2114) \<and>
   real_sum (0, ang_to_bohr, 0) (ang_to_bohr, 0, 0) (0, 0, ang_to_bohr) (1 / 2, 0, 0) 1 eye3
     (1 / 100) 200000 =
     Inr (Some (cube_sum (0, ang_to_bohr, 0) (ang_to_bohr, 0, 0) (0, 0, ang_to_bohr)
                  (1 / 2, 0, 0) 1 eye3 (1 / 100) 5)) \<and>
   getgridind lh_cell (2, 2, 2) (get_fractional_coords (lattice lh_cell) (1 / 2, 0, 0)) =
     Inr (0, 1, 0) \<and>
   anisotropic_madelung_potential lh_cell (2, 2, 2) (zeros (2, 2, 2)) (1 / 2, 0, 0) eye3 1
      (1 / 100) 200000 \<noteq>
     Inr ((cube_sum (0, ang_to_bohr, 0) (ang_to_bohr, 0, 0) (0, 0, ang_to_bohr) (1 / 2, 0, 0) 1
             eye3 (1 / 100) 5
           + 1 * 0
           - 1 * pi / (volume (lattice lh_cell) * ang_to_bohr ^ 3 * (1 / 100)\<^sup>2)) * 27.2114)"
proof -
  let ?S = "cube_sum (0, ang_to_bohr, 0) (ang_to_bohr, 0, 0) (0, 0, ang_to_bohr) (1 / 2, 0, 0) 1
             eye3 (1 / 100) 5"
  have e: "anisotropic_madelung_potential lh_cell (2, 2, 2) (zeros (2, 2, 2)) (1 / 2, 0, 0) eye3 1
      (1 / 100) 200000 =
      Inr (hart_to_ev * (?S + 1 * 0 - 1 * pi / (- (ang_to_bohr ^ 3) * (1 / 100)\<^sup>2)))"
    by (subst anisotropic_madelung_potential_unfold,
        simp only: lh_cell_bohr prod.case lh_offset_find_5 lh_get_g_sum lh_vol eye3_inverse
          sum.case option.case,
        simp)
  have p: "0 < pi / (ang_to_bohr ^ 3 * (1 / 100)\<^sup>2)"
    by (simp add: ang_to_bohr_def)
  have f1: "hart_to_ev * (?S + 1 * 0 - 1 * pi / (- (ang_to_bohr ^ 3) * (1 / 100)\<^sup>2)) =
      (?S + 1 * 0 + 1 * pi / (1 * ang_to_bohr ^ 3 * (1 / 100)\<^sup>2)) * 27.2114"
    by (simp add: hart_to_ev_def)
  have f2: "(?S + 1 * 0 + 1 * pi / (1 * ang_to_bohr ^ 3 * (1 / 100)\<^sup>2)) * 27.2114 \<noteq>
      (?S + 1 * 0 - 1 * pi / (1 * ang_to_bohr ^ 3 * (1 / 100)\<^sup>2)) * (27.2114 :: real)"
    using p by (simp add: ang_to_bohr_def)
  show ?thesis
    unfolding e f1 lh_volume using f2 lh_offset_real_sum lh_get_g_sum(2) by simp
qed

subsection \<open>Claims on site mapping, potential alignment and the correction\<close>

lemma potential_loop_inside:
  "list_all (\<lambda>(i, e). OutsideWS e = Some False) d \<Longrightarrow> potential_loop self d = Inr d"
  by (induction d) auto

lemma forcorrection_loop_inside:
  "list_all (\<lambda>(i, e). OutsideWS e = Some False) d \<Longrightarrow> forcorrection_loop d acc = Inr acc"
  by (induction d) auto

lemma mark_outside_inside:
  "list_all (\<lambda>(i, e). \<not> site_dist e > wsrad) d \<Longrightarrow>
   list_all (\<lambda>(i, e). OutsideWS e = Some False) (mark_outside wsrad d)"
  by (induction d) (auto simp: mark_outside_def)

text \<open>
  Claim C3, amended. When no site record has a distance to the defect strictly greater
  than the Wigner-Seitz radius, the potential-alignment step (with \<^verbatim>\<open>title=None\<close>)
  computes nothing for any site, takes \<^verbatim>\<open>np.mean\<close> of the empty list
  \<^verbatim>\<open>forcorrection\<close>, which is \<^verbatim>\<open>nan\<close>, and returns \<open>- q * nan = nan\<close>: it raises no
  error. (The steps before the loops, \<^verbatim>\<open>kumagai_init\<close>, \<^verbatim>\<open>disttrans\<close> and
  \<^verbatim>\<open>wigner_seitz_radius\<close>, are taken to have returned.)
\<close>

theorem potalign_no_outside_site:
  assumes "kumagai_init (self_structure self) (self_dieltens self) = Inr init"
    and "disttrans find_defect_pos closestsites (self_structure self) (self_defstructure self)
           (self_dims self) = Inr (Some potinddict)"
    and "wigner_seitz_radius (self_structure self) = Inr wsrad"
    and "list_all (\<lambda>(i, e). \<not> site_dist e > wsrad) potinddict"
  shows "potalign find_defect_pos closestsites self = Inr NaN"
  using assms
  by (simp add: potalign_def potential_loop_inside forcorrection_loop_inside mark_outside_inside
      np_mean_def)

text \<open>
  Claim C9. For every \<^verbatim>\<open>partflag\<close>, when the charge is zero \<^verbatim>\<open>correction\<close> returns
  \<open>0.0\<close>, or the list \<open>[0., 0., 0.]\<close> for \<^verbatim>\<open>'AllSplit'\<close>, whatever the other attributes
  of the object are: neither \<^verbatim>\<open>pc\<close> nor \<^verbatim>\<open>potalign\<close> is evaluated, so no lattice or
  reciprocal sum is computed (and none of their errors can occur).
\<close>

theorem correction_zero_charge:
  assumes "self_q self = 0"
  shows "correction find_defect_pos closestsites self partflag =
           (if partflag = ''AllSplit'' then Inr (Split (Num 0) (Num 0) (Num 0))
            else Inr (Scalar (Num 0)))"
  using assms by (simp add: correction_def)

lemma norm_v_axis: "norm_v (x, 0, 0) = \<bar>x\<bar>" "norm_v (0, x, 0) = \<bar>x\<bar>" "norm_v (0, 0, x) = \<bar>x\<bar>"
  by (simp_all add: norm_v_def)

lemma bulk_cell_wsrad: "wigner_seitz_radius bulk_cell = Inr (1 / 2)"
  by (simp add: wigner_seitz_radius_def bulk_cell_def cubic_lattice_def vmean_def py_min_def norm_v_axis)

lemma returnclosestr_B:
  "returnclosestr (matrix (lattice vacancy_cell)) (0, 0, 0) (1 / 2, 0, 0) =
     (1 / 2, (1 / 2, 0, 0), (0, 0, 0))"
  by (simp add: returnclosestr_def vacancy_cell_def cubic_lattice_def lattice_point_def
      norm_v_def Let_def real_sqrt_divide)

lemma vacancy_disttrans:
  "disttrans vacancy_at_origin closest_is_B bulk_cell vacancy_cell (2, 2, 2) =
     Inr (Some [(1, \<lparr>site_dist = 1 / 2, site_cart = (1 / 2, 0, 0), cart_reldef = (1 / 2, 0, 0),
                       siteobj = ((1 / 2, 0, 0), (1 / 2, 0, 0), ''Cl''),
                       bulk_site_index = 1, def_site_index = 0,
                       OutsideWS = None, Vpc = None, Vqb = None\<rparr>)])"
proof -
  have c: "coords site_A = (0, 0, 0)" "coords site_B = (1 / 2, 0, 0)"
    "frac_coords site_B = (1 / 2, 0, 0)" "species_string site_B = ''Cl''"
    by (simp_all add: site_A_def site_B_def)
  have s: "sites bulk_cell = [site_A, site_B]" "sites vacancy_cell = [site_B]"
    by (simp_all add: bulk_cell_def vacancy_cell_def)
  show ?thesis
    unfolding disttrans_def vacancy_at_origin_def s
    by (simp add: c closest_is_B_def returnclosestr_B Let_def)
qed

lemma bulk_cell_init:
  "kumagai_init bulk_cell eye3 =
     Inr (matrix cubic_lattice, mat_scale ang_to_bohr (matrix cubic_lattice),
          ang_to_bohr * (ang_to_bohr * ang_to_bohr), 1, eye3)"
  by (simp add: kumagai_init_def bulk_cell_def cubic_lattice_def linalg_inv_def eye3_def Let_def)

text \<open>
  Claim C3 says that the potential-alignment step fails with an InsufficientSamplingError
  when no site lies outside the Wigner-Seitz radius, rather than returning NaN. In the
  cubic cell with a vacancy at the origin the only other site is at distance \<open>1/2\<close>, the
  Wigner-Seitz radius: no site is outside, and \<^verbatim>\<open>potalign\<close> returns \<^verbatim>\<open>nan\<close>.
\<close>

theorem potalign_empty_counterexample:
  "potalign vacancy_at_origin closest_is_B vacancy_run = Inr NaN"
  by (simp add: potalign_def vacancy_run_def bulk_cell_init vacancy_disttrans bulk_cell_wsrad
      mark_outside_def np_mean_def)

text \<open>An instance of the amended claim C3: the same cell, the charge \<open>- 2\<close>.\<close>

theorem potalign_no_outside_site_witness:
  "potalign vacancy_at_origin closest_is_B (vacancy_run\<lparr>self_q := - 2\<rparr>) = Inr NaN"
proof -
  let ?self = "vacancy_run\<lparr>self_q := - 2\<rparr>"
  have k: "kumagai_init (self_structure ?self) (self_dieltens ?self) =
     Inr (matrix cubic_lattice, mat_scale ang_to_bohr (matrix cubic_lattice),
          ang_to_bohr * (ang_to_bohr * ang_to_bohr), 1, eye3)"
    by (simp add: vacancy_run_def bulk_cell_init)
  have d: "disttrans vacancy_at_origin closest_is_B (self_structure ?self) (self_defstructure ?self)
           (self_dims ?self) =
     Inr (Some [(1, \<lparr>site_dist = 1 / 2, site_cart = (1 / 2, 0, 0), cart_reldef = (1 / 2, 0, 0),
                       siteobj = ((1 / 2, 0, 0), (1 / 2, 0, 0), ''Cl''),
                       bulk_site_index = 1, def_site_index = 0,
                       OutsideWS = None, Vpc = None, Vqb = None\<rparr>)])"
    by (simp add: vacancy_run_def vacancy_disttrans)
  have w: "wigner_seitz_radius (self_structure ?self) = Inr (1 / 2)"
    by (simp add: vacancy_run_def bulk_cell_wsrad)
  show ?thesis
    by (rule potalign_no_outside_site [OF k d w]) simp
qed

text \<open>
  Claim C8 says that site mapping fails with a DefectNotFoundError when no defect can be
  identified. On two equal structures \<^verbatim>\<open>find_defect_pos\<close> identifies none, and
  \<^verbatim>\<open>disttrans\<close> logs an error and returns \<^verbatim>\<open>None\<close>: it raises nothing.
\<close>

theorem disttrans_no_defect_counterexample:
  "disttrans no_defect closest_is_B bulk_cell bulk_cell (2, 2, 2) = Inr None"
  by (simp add: disttrans_def no_defect_def)

text \<open>
  Claim C8, amended. Site mapping logs an error and returns \<^verbatim>\<open>None\<close>, raising no
  exception, whenever neither a missing site (vacancy), an added site (interstitial) nor a
  substituted site can be identified between the bulk and the defect structure, that is
  when \<^verbatim>\<open>find_defect_pos\<close> returns \<^verbatim>\<open>(None, None)\<close>; and it returns \<^verbatim>\<open>None\<close> in
  that case only.
\<close>

theorem disttrans_no_defect:
  "disttrans find_defect_pos closestsites struct defstruct dims = Inr None \<longleftrightarrow>
     find_defect_pos struct defstruct = (None, None)"
  by (cases "find_defect_pos struct defstruct")
     (auto simp: disttrans_def Let_def map_sum_def split: option.splits sum.splits)

text \<open>
  An instance of claim C9: an object with zero charge and a singular dielectric tensor, on
  which the point-charge energy itself would raise.
\<close>

theorem correction_zero_charge_witness:
  "correction vacancy_at_origin closest_is_B (vacancy_run\<lparr>self_q := 0, self_dieltens := zero_mat\<rparr>)
     ''All'' = Inr (Scalar (Num 0)) \<and>
   correction vacancy_at_origin closest_is_B (vacancy_run\<lparr>self_q := 0, self_dieltens := zero_mat\<rparr>)
     ''AllSplit'' = Inr (Split (Num 0) (Num 0) (Num 0)) \<and>
   pc (vacancy_run\<lparr>self_q := 0, self_dieltens := zero_mat\<rparr>) = Inl LinAlgError"
proof -
  have q: "self_q (vacancy_run\<lparr>self_q := 0, self_dieltens := zero_mat\<rparr>) = 0" by simp
  have p: "pc (vacancy_run\<lparr>self_q := 0, self_dieltens := zero_mat\<rparr>) = Inl LinAlgError"
    by (simp add: pc_def anisotropic_pc_energy_def kumagai_init_def linalg_inv_def zero_mat_def Let_def)
  show ?thesis
    using correction_zero_charge [OF q, of vacancy_at_origin closest_is_B "''All''"]
      correction_zero_charge [OF q, of vacancy_at_origin closest_is_B "''AllSplit''"] p
    by simp
qed


subsection \<open>The gamma search\<close>


















subsection \<open>The reciprocal grid\<close>

lemma fold_update_upt:
  "b \<le> length xs \<Longrightarrow>
   fold (\<lambda>i ind. ind[i := f i]) [a..<b] xs =
     map (\<lambda>j. if a \<le> j \<and> j < b then f j else xs ! j) [0..<length xs]"
proof (induction b)
  case 0
  then show ?case by (simp add: map_nth)
next
  case (Suc b)
  show ?case
  proof (cases "a \<le> b")
    case True
    from Suc have IH: "fold (\<lambda>i ind. ind[i := f i]) [a..<b] xs =
        map (\<lambda>j. if a \<le> j \<and> j < b then f j else xs ! j) [0..<length xs]"
      by simp
    from True have "fold (\<lambda>i ind. ind[i := f i]) [a..<Suc b] xs =
        (fold (\<lambda>i ind. ind[i := f i]) [a..<b] xs)[b := f b]"
      by simp
    also have "\<dots> = (map (\<lambda>j. if a \<le> j \<and> j < b then f j else xs ! j) [0..<length xs])[b := f b]"
      by (simp only: IH)
    also have "\<dots> = map (\<lambda>j. if a \<le> j \<and> j < Suc b then f j else xs ! j) [0..<length xs]"
      using True by (intro nth_equalityI) (auto simp: nth_list_update less_Suc_eq)
    finally show ?thesis .
  next
    case False
    then have e: "[a..<Suc b] = []" by simp
    have "map (\<lambda>j. if a \<le> j \<and> j < Suc b then f j else xs ! j) [0..<length xs] =
          map (\<lambda>j. xs ! j) [0..<length xs]"
      using False by (intro map_cong) auto
    then show ?thesis using False by (simp add: map_nth)
  qed
qed

lemma ind_array_eq: "ind_array n = map (signed_index n) [0..<n]"
proof -
  have "ind_array n =
      map (\<lambda>j. if n div 2 \<le> j \<and> j < n then int j - int n else map int [0..<n] ! j) [0..<n]"
    unfolding ind_array_def by (subst fold_update_upt) simp_all
  also have "\<dots> = map (signed_index n) [0..<n]"
    by (rule map_cong) (auto simp: signed_index_def)
  finally show ?thesis .
qed

lemma np_index_signed: "m < n \<Longrightarrow> np_index n (signed_index n m) = Inr m"
  by (auto simp: np_index_def signed_index_def)

lemma ndarray_eta: "\<lparr>shape = shape arr, item = item arr\<rparr> = (arr :: 'a ndarray)"
  by (cases arr) simp

lemma setitem_signed:
  assumes "shape arr = (nx, ny, nz)" "m1 < nx" "m2 < ny" "m3 < nz"
  shows "setitem arr (signed3 (nx, ny, nz) (m1, m2, m3)) v =
           Inr (arr\<lparr>item := (item arr)((m1, m2, m3) := v)\<rparr>)"
  using assms by (simp add: np_index_signed)

lemma g_array_loop_positions:
  assumes "shape arr = (nx, ny, nz)"
    and "\<forall>m \<in> set ms. case m of (m1, m2, m3) \<Rightarrow> m1 < nx \<and> m2 < ny \<and> m3 < nz"
  shows "g_array_loop b1 b2 b3 epsilon gamm2 (map (signed3 (nx, ny, nz)) ms) arr =
           Inr \<lparr>shape = (nx, ny, nz),
                item = (\<lambda>p. if p \<in> set ms then
                                (if signed3 (nx, ny, nz) p = (0, 0, 0) then item arr p
                                 else complex_of_real
                                        (g_entry b1 b2 b3 epsilon gamm2 (signed3 (nx, ny, nz) p)))
                              else item arr p)\<rparr>"
  using assms
proof (induction ms arbitrary: arr)
  case Nil
  then show ?case using ndarray_eta [of arr] by simp
next
  case (Cons m ms)
  obtain m1 m2 m3 where m: "m = (m1, m2, m3)" by (cases m) auto
  from Cons.prems m have lt: "m1 < nx" "m2 < ny" "m3 < nz" by auto
  from Cons.prems have rest:
    "\<forall>m \<in> set ms. case m of (m1, m2, m3) \<Rightarrow> m1 < nx \<and> m2 < ny \<and> m3 < nz" by simp
  show ?case
  proof (cases "signed3 (nx, ny, nz) m = (0, 0, 0)")
    case True
    have "g_array_loop b1 b2 b3 epsilon gamm2 (map (signed3 (nx, ny, nz)) (m # ms)) arr =
          g_array_loop b1 b2 b3 epsilon gamm2 (map (signed3 (nx, ny, nz)) ms) arr"
      using True by simp
    also note Cons.IH [OF Cons.prems(1) rest]
    also have "(\<lambda>p. if p \<in> set ms then
                    (if signed3 (nx, ny, nz) p = (0, 0, 0) then item arr p
                     else complex_of_real (g_entry b1 b2 b3 epsilon gamm2 (signed3 (nx, ny, nz) p)))
                  else item arr p) =
               (\<lambda>p. if p \<in> set (m # ms) then
                    (if signed3 (nx, ny, nz) p = (0, 0, 0) then item arr p
                     else complex_of_real (g_entry b1 b2 b3 epsilon gamm2 (signed3 (nx, ny, nz) p)))
                  else item arr p)"
      using True by (intro ext) auto
    finally show ?thesis .
  next
    case False
    let ?v = "complex_of_real (g_entry b1 b2 b3 epsilon gamm2 (signed3 (nx, ny, nz) m))"
    let ?arr = "arr\<lparr>item := (item arr)(m := ?v)\<rparr>"
    have set: "setitem arr (signed3 (nx, ny, nz) m) ?v = Inr ?arr"
      unfolding m by (rule setitem_signed [OF Cons.prems(1) lt])
    have sh: "shape ?arr = (nx, ny, nz)" using Cons.prems(1) by simp
    have "g_array_loop b1 b2 b3 epsilon gamm2 (map (signed3 (nx, ny, nz)) (m # ms)) arr =
          g_array_loop b1 b2 b3 epsilon gamm2 (map (signed3 (nx, ny, nz)) ms) ?arr"
      using False set by simp
    also note Cons.IH [OF sh rest]
    also have "(\<lambda>p. if p \<in> set ms then
                    (if signed3 (nx, ny, nz) p = (0, 0, 0) then item ?arr p
                     else complex_of_real (g_entry b1 b2 b3 epsilon gamm2 (signed3 (nx, ny, nz) p)))
                  else item ?arr p) =
               (\<lambda>p. if p \<in> set (m # ms) then
                    (if signed3 (nx, ny, nz) p = (0, 0, 0) then item arr p
                     else complex_of_real (g_entry b1 b2 b3 epsilon gamm2 (signed3 (nx, ny, nz) p)))
                  else item arr p)"
      using False by (intro ext) auto
    finally show ?thesis .
  qed
qed

lemma index_triples:
  "[(i, j, k). i \<leftarrow> ind_array nx, j \<leftarrow> ind_array ny, k \<leftarrow> ind_array nz] =
     map (signed3 (nx, ny, nz)) [(m1, m2, m3). m1 \<leftarrow> [0..<nx], m2 \<leftarrow> [0..<ny], m3 \<leftarrow> [0..<nz]]"
  by (simp add: ind_array_eq map_concat comp_def)

lemma g_array_filled:
  "g_array_loop b1 b2 b3 epsilon gamm2
     [(i, j, k). i \<leftarrow> ind_array nx, j \<leftarrow> ind_array ny, k \<leftarrow> ind_array nz]
     \<lparr>shape = (nx, ny, nz), item = (\<lambda>_. 0)\<rparr> =
   Inr \<lparr>shape = (nx, ny, nz),
        item = (\<lambda>p. if p \<in> {..<nx} \<times> {..<ny} \<times> {..<nz}
                      then g_array_at b1 b2 b3 epsilon gamm2 (nx, ny, nz) p else 0)\<rparr>"
proof -
  let ?ms = "[(m1, m2, m3). m1 \<leftarrow> [0..<nx], m2 \<leftarrow> [0..<ny], m3 \<leftarrow> [0..<nz]]"
  have s: "set ?ms = {..<nx} \<times> {..<ny} \<times> {..<nz}" by (auto simp: image_iff)
  have v: "\<forall>m \<in> set ?ms. case m of (m1, m2, m3) \<Rightarrow> m1 < nx \<and> m2 < ny \<and> m3 < nz" by auto
  have "g_array_loop b1 b2 b3 epsilon gamm2 (map (signed3 (nx, ny, nz)) ?ms)
          \<lparr>shape = (nx, ny, nz), item = (\<lambda>_. 0)\<rparr> =
        Inr \<lparr>shape = (nx, ny, nz),
             item = (\<lambda>p. if p \<in> set ?ms then
                 (if signed3 (nx, ny, nz) p = (0, 0, 0)
                  then item \<lparr>shape = (nx, ny, nz), item = (\<lambda>_. 0 :: complex)\<rparr> p
                  else complex_of_real (g_entry b1 b2 b3 epsilon gamm2 (signed3 (nx, ny, nz) p)))
               else item \<lparr>shape = (nx, ny, nz), item = (\<lambda>_. 0 :: complex)\<rparr> p)\<rparr>"
    by (rule g_array_loop_positions [OF _ v]) simp
  also have "(\<lambda>p. if p \<in> set ?ms then
                 (if signed3 (nx, ny, nz) p = (0, 0, 0)
                  then item \<lparr>shape = (nx, ny, nz), item = (\<lambda>_. 0 :: complex)\<rparr> p
                  else complex_of_real (g_entry b1 b2 b3 epsilon gamm2 (signed3 (nx, ny, nz) p)))
               else item \<lparr>shape = (nx, ny, nz), item = (\<lambda>_. 0 :: complex)\<rparr> p) =
             (\<lambda>p. if p \<in> {..<nx} \<times> {..<ny} \<times> {..<nz}
                   then g_array_at b1 b2 b3 epsilon gamm2 (nx, ny, nz) p else 0)"
    by (intro ext) (simp only: s g_array_at_def, simp)
  finally show ?thesis by (simp only: index_triples)
qed


lemma fftn_filled:
  assumes "nx \<noteq> 0" "ny \<noteq> 0" "nz \<noteq> 0"
  shows "fftn \<lparr>shape = (nx, ny, nz),
               item = (\<lambda>p. if p \<in> {..<nx} \<times> {..<ny} \<times> {..<nz} then G p else 0)\<rparr> =
         Inr \<lparr>shape = (nx, ny, nz),
              item = (\<lambda>(k1, k2, k3).
                \<Sum>m1<nx. \<Sum>m2<ny. \<Sum>m3<nz.
                  G (m1, m2, m3) *
                  cis (- 2 * pi * (real (k1 * m1) / real nx + real (k2 * m2) / real ny
                                    + real (k3 * m3) / real nz)))\<rparr>"
proof -
  have "(\<Sum>m1<nx. \<Sum>m2<ny. \<Sum>m3<nz.
            (if (m1, m2, m3) \<in> {..<nx} \<times> {..<ny} \<times> {..<nz} then G (m1, m2, m3) else 0) *
            cis (- 2 * pi * (real (k1 * m1) / real nx + real (k2 * m2) / real ny
                              + real (k3 * m3) / real nz))) =
        (\<Sum>m1<nx. \<Sum>m2<ny. \<Sum>m3<nz.
            G (m1, m2, m3) *
            cis (- 2 * pi * (real (k1 * m1) / real nx + real (k2 * m2) / real ny
                              + real (k3 * m3) / real nz)))" for k1 k2 k3
    by (intro sum.cong refl) simp
  then show ?thesis using assms by (simp add: fftn_def)
qed

lemma reciprocal_r_array_formula:
  assumes "mat_scale (1 / ang_to_bohr) (reciprocal_lattice (lattice struct)) = (b1, b2, b3)"
  shows "reciprocal_r_array struct (nx, ny, nz) epsilon gamma =
     (if nx = 0 \<or> ny = 0 \<or> nz = 0 then Inl ValueError
      else Inr \<lparr>shape = (nx, ny, nz),
                item = (\<lambda>(k1, k2, k3).
                  (\<Sum>m1<nx. \<Sum>m2<ny. \<Sum>m3<nz.
                     g_array_at b1 b2 b3 epsilon (4 * gamma\<^sup>2) (nx, ny, nz) (m1, m2, m3) *
                     cis (- 2 * pi * (real (k1 * m1) / real nx + real (k2 * m2) / real ny
                                       + real (k3 * m3) / real nz))) *
                  complex_of_real (4 * pi / (volume (lattice struct) * ang_to_bohr ^ 3)))\<rparr>)"
proof (cases "nx = 0 \<or> ny = 0 \<or> nz = 0")
  case True
  then show ?thesis
    by (simp only: reciprocal_r_array_def Let_def assms prod.case g_array_filled sum.case)
       (simp add: fftn_def)
next
  case False
  then have nz: "nx \<noteq> 0" "ny \<noteq> 0" "nz \<noteq> 0" by simp_all
  show ?thesis
    by (simp only: reciprocal_r_array_def Let_def assms prod.case g_array_filled sum.case
          fftn_filled [OF nz])
       (simp add: False case_prod_unfold)
qed


text \<open>
  On an axis of even length the multiples of the code are those of the rule
  \<^emph>\<open>indices above half the grid dimension wrap to negative\<close>, the index at half the
  dimension included.
\<close>

lemma claim_index_even:
  assumes "even n" "m < n"
  shows "signed_index n m = claim_index n m"
proof -
  from assms(1) obtain k where n: "n = 2 * k" by (auto elim: evenE)
  have "real n / 2 = real k" by (simp add: n)
  then show ?thesis by (simp add: signed_index_def claim_index_def above_half_def n)
qed

lemma sum_lessThan_3: "(\<Sum>m<(3::nat). f m) = f 0 + f 1 + f 2"
  by (simp add: numeral_3_eq_3 lessThan_Suc numeral_2_eq_2 add.commute add.left_commute)

lemma signed_index_3:
  "signed_index 3 0 = 0" "signed_index 3 1 = - 2" "signed_index 3 2 = - 1"
  by (simp_all add: signed_index_def)


lemma cubic_recip:
  "mat_scale (1 / ang_to_bohr) (reciprocal_lattice (lattice cubic_cell)) =
     ((2 * pi / ang_to_bohr, 0, 0), (0, 2 * pi / ang_to_bohr, 0), (0, 0, 2 * pi / ang_to_bohr))"
  by (simp add: cubic_cell_def cubic_lattice_def)

lemma g_entry_cubic:
  "g_entry (b, 0, 0) (0, b, 0) (0, 0, b) eye3 c (i, j, k) =
     exp (- (b\<^sup>2 * real_of_int (i\<^sup>2 + j\<^sup>2 + k\<^sup>2)) / c) / (b\<^sup>2 * real_of_int (i\<^sup>2 + j\<^sup>2 + k\<^sup>2))"
proof -
  have "dot (lattice_point (b, 0, 0) (0, b, 0) (0, 0, b) (i, j, k))
          (mat_vec eye3 (lattice_point (b, 0, 0) (0, b, 0) (0, 0, b) (i, j, k))) =
        b\<^sup>2 * real_of_int (i\<^sup>2 + j\<^sup>2 + k\<^sup>2)"
    by (simp add: mat_vec_eye3 lattice_point_def power2_eq_square algebra_simps)
  then show ?thesis by (simp add: g_entry_def Let_def)
qed


lemma signed_index_3_Suc: "signed_index 3 (Suc 0) = - 2"
  by (simp add: signed_index_def)


lemma g_entry_decreasing:
  fixes b :: real
  assumes "b \<noteq> 0" "0 < n" "n \<le> n'"
  shows "exp (- (b\<^sup>2 * real_of_int n') / 4) / (b\<^sup>2 * real_of_int n') \<le>
         exp (- (b\<^sup>2 * real_of_int n) / 4) / (b\<^sup>2 * real_of_int n)"
proof -
  have b2: "0 < b\<^sup>2" using assms(1) by simp
  have le: "b\<^sup>2 * real_of_int n \<le> b\<^sup>2 * real_of_int n'" using b2 assms(3) by simp
  have pos: "0 < b\<^sup>2 * real_of_int n" using b2 assms(2) by simp
  have e: "exp (- (b\<^sup>2 * real_of_int n') / 4) \<le> exp (- (b\<^sup>2 * real_of_int n) / 4)"
    using le by simp
  show ?thesis by (rule frac_le [OF _ e pos le]) simp
qed

lemma g_entry_strict:
  fixes b :: real
  assumes "b \<noteq> 0" "0 < n" "n < n'"
  shows "exp (- (b\<^sup>2 * real_of_int n') / 4) / (b\<^sup>2 * real_of_int n') <
         exp (- (b\<^sup>2 * real_of_int n) / 4) / (b\<^sup>2 * real_of_int n)"
proof -
  have b2: "0 < b\<^sup>2" using assms(1) by simp
  have le: "b\<^sup>2 * real_of_int n \<le> b\<^sup>2 * real_of_int n'" using b2 assms(3) by simp
  have pos: "0 < b\<^sup>2 * real_of_int n" using b2 assms(2) by simp
  have e: "exp (- (b\<^sup>2 * real_of_int n') / 4) < exp (- (b\<^sup>2 * real_of_int n) / 4)"
    using b2 assms(3) by simp
  show ?thesis by (rule frac_less [OF _ e pos le]) simp
qed

lemma sin_4pi_3: "sin (4 * pi / 3) = - sin (2 * pi / 3)"
proof -
  have "4 * pi / 3 = 2 * pi - 2 * pi / 3" by simp
  then show ?thesis by (simp only: sin_2pi_minus)
qed

lemma sin_2pi_3_pos: "0 < sin (2 * pi / 3)"
  by (rule sin_gt_zero) (use pi_gt_zero in simp_all)

lemma g_entry_cubic_even:
  "g_entry (b, 0, 0) (0, b, 0) (0, 0, b) eye3 c (1, j, k) =
   g_entry (b, 0, 0) (0, b, 0) (0, 0, b) eye3 c (- 1, j, k)"
  by (simp add: g_entry_cubic)

text \<open>
  On the grid of 3 x 3 x 3 points the transform of the code is not real. For the cubic cell,
  the unit dielectric tensor and gamma 1 the entry \<open>(1, 0, 0)\<close> of \<^verbatim>\<open>r_array\<close> has a
  positive imaginary part: \<open>sin (2 pi / 3) * 4 pi / volume\<close> times the sum, over the
  multiples \<open>j, k\<close> of the other two axes, of the difference between the terms of the
  multiples -1 and -2 of the first axis. (The terms of the multiples -1 and 1 are equal.)
\<close>

theorem r_array_odd_grid_imaginary:
  "map_sum id (\<lambda>arr. Im (item arr (1, 0, 0))) (reciprocal_r_array cubic_cell (3, 3, 3) eye3 1) =
     Inr (sin (2 * pi / 3) *
          sum_list (map (\<lambda>(j, k).
                      g_entry (2 * pi / ang_to_bohr, 0, 0) (0, 2 * pi / ang_to_bohr, 0)
                        (0, 0, 2 * pi / ang_to_bohr) eye3 4 (- 1, j, k) -
                      g_entry (2 * pi / ang_to_bohr, 0, 0) (0, 2 * pi / ang_to_bohr, 0)
                        (0, 0, 2 * pi / ang_to_bohr) eye3 4 (- 2, j, k))
                    [(j, k). j \<leftarrow> [0, - 2, - 1], k \<leftarrow> [0, - 2, - 1]]) *
          (4 * pi / (volume (lattice cubic_cell) * ang_to_bohr ^ 3)))
   \<and> 0 < sin (2 * pi / 3) *
          sum_list (map (\<lambda>(j, k).
                      g_entry (2 * pi / ang_to_bohr, 0, 0) (0, 2 * pi / ang_to_bohr, 0)
                        (0, 0, 2 * pi / ang_to_bohr) eye3 4 (- 1, j, k) -
                      g_entry (2 * pi / ang_to_bohr, 0, 0) (0, 2 * pi / ang_to_bohr, 0)
                        (0, 0, 2 * pi / ang_to_bohr) eye3 4 (- 2, j, k))
                    [(j, k). j \<leftarrow> [0, - 2, - 1], k \<leftarrow> [0, - 2, - 1]]) *
          (4 * pi / (volume (lattice cubic_cell) * ang_to_bohr ^ 3))"
proof -
  define b :: real where "b = 2 * pi / ang_to_bohr"
  define F where "F n = exp (- (b\<^sup>2 * real_of_int n) / 4) / (b\<^sup>2 * real_of_int n)" for n
  define c where "c = 4 * pi / (volume (lattice cubic_cell) * ang_to_bohr ^ 3)"
  define s where "s = sin (2 * pi / 3)"
  have b0: "b \<noteq> 0" by (simp add: b_def ang_to_bohr_def)
  have c0: "0 < c" by (simp add: c_def cubic_cell_def cubic_lattice_def ang_to_bohr_def)
  have s0: "0 < s" unfolding s_def by (rule sin_2pi_3_pos)
  have ge: "g_entry (b, 0, 0) (0, b, 0) (0, 0, b) eye3 4 (i, j, k) = F (i\<^sup>2 + j\<^sup>2 + k\<^sup>2)" for i j k
    unfolding F_def by (rule g_entry_cubic)
  have diff: "sum_list (map (\<lambda>(j, k).
                      g_entry (b, 0, 0) (0, b, 0) (0, 0, b) eye3 4 (- 1, j, k) -
                      g_entry (b, 0, 0) (0, b, 0) (0, 0, b) eye3 4 (- 2, j, k))
                    [(j, k). j \<leftarrow> [0, - 2, - 1], k \<leftarrow> [0, - 2, - 1]]) =
      F 1 + 2 * F 2 + F 3 + F 6 - F 4 - 2 * F 8 - F 9 - F 12"
    by (simp add: ge)
  have m: "F 4 < F 1" "F 8 \<le> F 2" "F 9 \<le> F 3" "F 12 \<le> F 6"
    unfolding F_def
    by (rule g_entry_strict [OF b0] g_entry_decreasing [OF b0]; simp)+
  have pos: "0 < F 1 + 2 * F 2 + F 3 + F 6 - F 4 - 2 * F 8 - F 9 - F 12"
    using m by linarith
  have ra: "reciprocal_r_array cubic_cell (3, 3, 3) eye3 1 =
      Inr \<lparr>shape = (3, 3, 3),
           item = (\<lambda>(k1, k2, k3).
             (\<Sum>m1<3. \<Sum>m2<3. \<Sum>m3<3.
                g_array_at (b, 0, 0) (0, b, 0) (0, 0, b) eye3 (4 * 1\<^sup>2) (3, 3, 3) (m1, m2, m3) *
                cis (- 2 * pi * (real (k1 * m1) / real 3 + real (k2 * m2) / real 3
                                  + real (k3 * m3) / real 3))) *
             complex_of_real c)\<rparr>"
    unfolding b_def c_def by (subst reciprocal_r_array_formula [OF cubic_recip]) simp
  have p1: "sin (pi * 2 / 3) = s" by (simp add: s_def mult.commute)
  have "sin (pi * 4 / 3) = sin (4 * pi / 3)" by (simp add: mult.commute)
  then have p2: "sin (pi * 4 / 3) = - s" by (simp only: sin_4pi_3 s_def)
  have item1: "map_sum id (\<lambda>arr. Im (item arr (1, 0, 0)))
        (reciprocal_r_array cubic_cell (3, 3, 3) eye3 1) =
      Inr (s * (F 1 + 2 * F 2 + F 3 + F 6 - F 4 - 2 * F 8 - F 9 - F 12) * c)"
    by (simp add: ra sum_lessThan_3 g_array_at_def signed_index_3 signed_index_3_Suc ge p1 p2
        algebra_simps)
  have "0 < s * (F 1 + 2 * F 2 + F 3 + F 6 - F 4 - 2 * F 8 - F 9 - F 12) * c"
    using s0 pos c0 by simp
  with item1 show ?thesis
    unfolding b_def [symmetric] c_def [symmetric] s_def [symmetric] diff by (intro conjI)
qed


end
